theory Spec2Isabelle
  imports Complex_Main
begin

section \<open>JavaScript values read by the script\<close>

text \<open>
  The board of a server state is an array of strings (empty, \<open>X\<close> or \<open>O\<close>).
  Reading an array out of range gives \<open>undefined\<close> in JavaScript, which is \<open>None\<close> here;
  a string is truthy when it is not empty, and \<open>undefined\<close> and \<open>null\<close> are falsy.
\<close>

type_synonym board = "string list"

definition js_index :: "'a list \<Rightarrow> nat \<Rightarrow> 'a option" where
  "js_index xs i = (if i < length xs then Some (xs ! i) else None)"

definition truthy :: "string option \<Rightarrow> bool" where
  "truthy v = (case v of None \<Rightarrow> False | Some s \<Rightarrow> s \<noteq> [])"

text \<open>
  A character of a text is a code unit below 256. \<open>String.prototype.trim\<close> removes
  white space and line terminators at both ends; below 256 these are tab, line feed,
  vertical tab, form feed, carriage return, space and the no-break space U+00A0.
\<close>

definition is_space :: "char \<Rightarrow> bool" where
  "is_space ch =
     (ch \<in> set [CHR 0x09, CHR 0x0A, CHR 0x0B, CHR 0x0C, CHR 0x0D, CHR '' '', CHR 0xA0])"

definition trim :: "string \<Rightarrow> string" where
  "trim txt = rev (dropWhile is_space (rev (dropWhile is_space txt)))"

subsection \<open>Numbers kept as element text\<close>

text \<open>
  The score elements keep their count as text, read back with \<open>Number(text || 0)\<close>.
  \<open>digits_value\<close> reads a run of decimal digits and \<open>decimal\<close> prints a number the way
  JavaScript prints an integer. \<open>Number_of_text\<close> is \<open>Number\<close> on a text that is blank
  (the number 0) or a run of decimal digits, blanks around it allowed, below \<open>2 ^ 53\<close>,
  where every integer is a double and adding one is exact. Any other text is \<open>None\<close>:
  JavaScript gives \<open>NaN\<close> for most of them and a fraction, a negative or a rounded
  number for the rest, none of which is a count.
\<close>

definition is_digit :: "char \<Rightarrow> bool" where
  "is_digit ch = (48 \<le> (of_char ch :: nat) \<and> (of_char ch :: nat) \<le> 57)"

definition digits_value :: "string \<Rightarrow> nat" where
  "digits_value txt = foldl (\<lambda>acc ch. 10 * acc + (of_char ch - 48)) 0 txt"

function decimal :: "nat \<Rightarrow> string" where
  "decimal n = (if n < 10 then [char_of (48 + n)]
                else decimal (n div 10) @ [char_of (48 + n mod 10)])"
  by pat_completeness auto
termination
  by (relation "measure (\<lambda>n. n)") auto

definition Number_of_text :: "string \<Rightarrow> nat option" where
  "Number_of_text txt =
     (let t = trim txt in
      if t = [] then Some 0
      else if list_all is_digit t \<and> digits_value t < 2 ^ 53 then Some (digits_value t)
      else None)"

text \<open>\<open>Number(text || 0)\<close>: the empty text is falsy, so the number 0 stands in for it.\<close>

definition Number_or_0 :: "string \<Rightarrow> nat option" where
  "Number_or_0 txt = (if txt = [] then Some 0 else Number_of_text txt)"

text \<open>
  \<open>Number(text || 0) + 1\<close>, stored back as text. Where \<open>Number_of_text\<close> is \<open>None\<close> the
  model writes \<open>NaN\<close>, which is what JavaScript writes for a text that is no number; for
  the other texts that \<open>Number_of_text\<close> leaves out (a fraction, a sign, a radix
  prefix, an exponent, a number from \<open>2 ^ 53\<close> on) JavaScript writes another number, and
  the properties below do not speak of them. The script itself only ever writes the
  decimal of a count.
\<close>

definition incremented :: "string \<Rightarrow> string" where
  "incremented txt =
     (case Number_or_0 txt of
        Some n \<Rightarrow> decimal (n + 1)
      | None \<Rightarrow> ''NaN'')"

section \<open>Win detector: \<open>findWinningTriple\<close> (script.js, lines 213 to 220)\<close>

type_synonym triple = "nat \<times> nat \<times> nat"

definition lines :: "triple list" where
  "lines = [(0,1,2),(3,4,5),(6,7,8),(0,3,6),(1,4,7),(2,5,8),(0,4,8),(2,4,6)]"

text \<open>The \<open>for (const l of lines)\<close> loop, on the lines still to be scanned.\<close>

fun scan :: "board \<Rightarrow> triple list \<Rightarrow> triple option" where
  "scan b [] = None"
| "scan b ((a, b1, c) # ls) =
     (if truthy (js_index b a) \<and> js_index b a = js_index b b1 \<and> js_index b a = js_index b c
      then Some (a, b1, c)
      else scan b ls)"

definition findWinningTriple :: "board \<Rightarrow> triple option" where
  "findWinningTriple b = scan b lines"

subsection \<open>The contract of the win detector, in the specification's words\<close>

text \<open>
  Index \<open>i\<close> is the cell in row \<open>i div 3\<close> and column \<open>i mod 3\<close>. The scan order is the
  three rows, then the three columns, then the two diagonals; a line is fully owned when
  its three cells are non-empty and identical.
\<close>

definition rows :: "triple list" where
  "rows = map (\<lambda>r. (3 * r, 3 * r + 1, 3 * r + 2)) [0, 1, 2]"

definition columns :: "triple list" where
  "columns = map (\<lambda>c. (c, c + 3, c + 6)) [0, 1, 2]"

definition diagonals :: "triple list" where
  "diagonals = [(0, 4, 8), (2, 4, 6)]"

definition scan_order :: "triple list" where
  "scan_order = rows @ columns @ diagonals"

fun fully_owned :: "board \<Rightarrow> triple \<Rightarrow> bool" where
  "fully_owned b (a, m, c) =
     (b ! a \<noteq> [] \<and> b ! m \<noteq> [] \<and> b ! c \<noteq> [] \<and> b ! a = b ! m \<and> b ! m = b ! c)"

section \<open>The page and the state of the script\<close>

text \<open>
  The markup of the page is not part of the script. The model takes a page on which the
  script loads: the elements it looks up by id and the \<open>.board\<close> element exist, and
  \<open>cells\<close> is the list of the \<open>.cell\<close> elements, of any length. The canvas may or may not
  give a 2D context (\<open>hasCtx\<close>), and the browser may or may not have Web Audio
  (\<open>hasAudio\<close>), as the script itself provides for. \<open>gameId\<close> is \<open>Some g\<close> for a game
  id \<open>g\<close> the script can use, and \<open>None\<close> while the variable is falsy: \<open>null\<close> before
  the first game, or an empty id.
\<close>

record rect =
  rleft :: real
  rright :: real
  rtop :: real
  rbottom :: real

text \<open>
  A cell element: the markup last assigned to \<open>innerHTML\<close>, the \<open>style.stroke\<close> of its
  \<open>svg\<close> child when it has one, and the box \<open>getBoundingClientRect\<close> returns for it.
\<close>

record cell =
  innerHTML :: string
  svgStroke :: "string option"
  cellRect :: rect

record winline =
  x1 :: real
  y1 :: real
  x2 :: real
  y2 :: real
  opacity :: real
  transition :: string
  strokeDashoffset :: real

datatype timer = MoveEndpoint real real | FadeLine | StopOscillator

record particle =
  px :: real
  py :: real
  pvx :: real
  pvy :: real
  psize :: real
  pcolor :: "string option"
  prot :: real
  pvrot :: real

datatype canvas_op =
    ClearRect real real real real
  | Save
  | Translate real real
  | Rotate real
  | FillStyle "string option"
  | FillRect real real real real
  | Restore

text \<open>
  One confetti run: the closure of one call of \<open>launchConfetti\<close> (\<open>W\<close>, \<open>H\<close>, \<open>pieces\<close>,
  \<open>t\<close>), whether a call of \<open>frame\<close> is requested from \<open>requestAnimationFrame\<close> and not
  yet made, and the calls the run has made on the 2D context, in order.
\<close>

record confetti_run =
  runW :: nat
  runH :: nat
  pieces :: "particle list"
  tick :: nat
  pending :: bool
  ops :: "canvas_op list"

record server_state =
  board :: board
  current_player :: string
  winner :: "string option"

text \<open>The JSON body of a response: \<open>data.error\<close>, \<open>data.state\<close>, \<open>data.game_id\<close>.\<close>

record payload =
  data_error :: "string option"
  data_state :: "server_state option"
  data_game_id :: "string option"

text \<open>
  What an awaited \<open>fetch\<close> followed by \<open>res.json()\<close> gives: an exception (the network
  failed or the body is not JSON), or \<open>res.ok\<close> and the parsed body.
\<close>

datatype response = Failure | Response bool payload

datatype request_body = NoBody | IndexBody nat

text \<open>
  The calls and effects the properties speak of, logged in order: requests sent, tones
  played, \<open>console.error\<close>, and the calls of the script's own functions.
\<close>

datatype event =
    Fetch string request_body
  | Tone real real real
  | ConsoleError
  | PreventDefault
  | PostMove nat
  | RequestAiMove
  | UpdateFromState server_state
  | FindWinningTriple board
  | AnimateWinLine nat nat
  | LaunchConfetti
  | FocusCell nat

datatype completion = Normal | Thrown

record ui =
  gameId :: "string option"
  soundOn :: bool
  hasCtx :: bool
  hasAudio :: bool
  canvasWidth :: nat
  canvasHeight :: nat
  cells :: "cell list"
  boardRect :: rect
  focused :: "nat option"
  statusText :: string
  scoreX :: string
  scoreO :: string
  winLine :: winline
  timers :: "(real \<times> timer) list"
  confetti :: "confetti_run list"
  trace :: "event list"

definition emit :: "event \<Rightarrow> ui \<Rightarrow> ui" where
  "emit e s = s\<lparr>trace := trace s @ [e]\<rparr>"

section \<open>Sounds: \<open>beep\<close> (lines 31 to 40)\<close>

definition beep :: "real \<Rightarrow> real \<Rightarrow> real \<Rightarrow> ui \<Rightarrow> ui" where
  "beep freq dur vol s =
     (if \<not> hasAudio s \<or> \<not> soundOn s then s
      else s\<lparr>trace := trace s @ [Tone freq dur vol],
             timers := timers s @ [(dur * 1000 + 20, StopOscillator)]\<rparr>)"

section \<open>Marks: \<open>SVG_X\<close>, \<open>SVG_O\<close> and \<open>renderMark\<close>\<close>

definition SVG_X :: string where
  \<open>SVG_X = ''<svg class="icon-x" viewBox="0 0 64 64"><line x1="12" y1="12" x2="52" y2="52" stroke="white" stroke-width="6" stroke-linecap="round"/><line x1="52" y1="12" x2="12" y2="52" stroke="white" stroke-width="6" stroke-linecap="round"/></svg>''\<close>

definition SVG_O :: string where
  \<open>SVG_O = ''<svg class="icon-o" viewBox="0 0 64 64"><circle cx="32" cy="32" r="18" fill="none" stroke="white" stroke-width="6" /></svg>''\<close>

text \<open>
  The script declares \<open>renderMark\<close> twice in the same function body (lines 47 and 252);
  the later declaration is the one every call reaches, and it is the one modelled.
\<close>

definition renderMark :: "cell \<Rightarrow> string \<Rightarrow> cell" where
  "renderMark cellEl mark =
     (if mark = [] then cellEl\<lparr>innerHTML := [], svgStroke := None\<rparr>
      else cellEl\<lparr>innerHTML := (if mark = ''X'' then SVG_X else SVG_O),
                  svgStroke := Some ''white''\<rparr>)"

text \<open>
  \<open>textContent\<close> of an element is the text of its descendant text nodes. For markup made
  of tags only, with no comment, no character reference and no closing angle bracket
  inside an attribute value (the two constants above are such markup), that is the
  characters outside the tags: \<open>strip_tags inside\<close> drops everything from an opening
  angle bracket to the next closing one.
\<close>

fun strip_tags :: "bool \<Rightarrow> string \<Rightarrow> string" where
  "strip_tags inside [] = []"
| "strip_tags inside (ch # rest) =
     (if inside then (if ch = CHR ''>'' then strip_tags False rest else strip_tags True rest)
      else if ch = CHR ''<'' then strip_tags True rest
      else ch # strip_tags False rest)"

definition textContent :: "cell \<Rightarrow> string" where
  "textContent cellEl = strip_tags False (innerHTML cellEl)"

section \<open>Status line and win line: \<open>setStatus\<close>, \<open>animateWinLine\<close>\<close>

definition setStatus :: "string \<Rightarrow> ui \<Rightarrow> ui" where
  "setStatus txt s = s\<lparr>statusText := txt\<rparr>"

text \<open>The callbacks given to \<open>setTimeout\<close>, run when their timer fires.\<close>

fun fire :: "timer \<Rightarrow> ui \<Rightarrow> ui" where
  "fire (MoveEndpoint bx by) s =
     s\<lparr>winLine := (winLine s)\<lparr>x2 := bx, y2 := by, opacity := 1, strokeDashoffset := 0,
          transition := ''stroke-dashoffset 700ms cubic-bezier(.2,.9,.2,1), x2 700ms''\<rparr>\<rparr>"
| "fire FadeLine s =
     s\<lparr>winLine := (winLine s)\<lparr>opacity := 0, transition := ''opacity 600ms''\<rparr>\<rparr>"
| "fire StopOscillator s = s"

text \<open>
  \<open>cells[aIndex].getBoundingClientRect()\<close> throws a TypeError when there is no such cell;
  both boxes are read before anything is written.
\<close>

definition animateWinLine :: "nat \<Rightarrow> nat \<Rightarrow> ui \<Rightarrow> completion \<times> ui" where
  "animateWinLine aIndex bIndex s0 =
     (let s = emit (AnimateWinLine aIndex bIndex) s0; r = boardRect s in
      case js_index (cells s) aIndex of
        None \<Rightarrow> (Thrown, s)
      | Some ca \<Rightarrow>
         (case js_index (cells s) bIndex of
            None \<Rightarrow> (Thrown, s)
          | Some cb \<Rightarrow>
             (let a = cellRect ca; b = cellRect cb;
                  ax = (rleft a + rright a) / 2 - rleft r;
                  ay = (rtop a + rbottom a) / 2 - rtop r;
                  bx = (rleft b + rright b) / 2 - rleft r;
                  by = (rtop b + rbottom b) / 2 - rtop r
              in (Normal,
                  s\<lparr>winLine := (winLine s)\<lparr>x1 := ax, y1 := ay, x2 := ax, y2 := ay,
                        opacity := 1, transition := ''opacity .25s linear''\<rparr>,
                    timers := timers s @ [(20, MoveEndpoint bx by), (1800, FadeLine)]\<rparr>))))"

subsection \<open>The geometry of the win line, in the specification's words\<close>

definition center :: "rect \<Rightarrow> real \<times> real" where
  "center q = ((rleft q + rright q) / 2, (rtop q + rbottom q) / 2)"

definition relative_to :: "rect \<Rightarrow> real \<times> real \<Rightarrow> real \<times> real" where
  "relative_to q p = (fst p - rleft q, snd p - rtop q)"

definition cell_center :: "ui \<Rightarrow> nat \<Rightarrow> real \<times> real" where
  "cell_center s i = relative_to (boardRect s) (center (cellRect (cells s ! i)))"

section \<open>Confetti: \<open>launchConfetti\<close> and \<open>frame\<close> (lines 97 to 137)\<close>

definition colors :: "string list" where
  "colors = [''#7c5cff'', ''#4be1a2'', ''#ff6b6b'', ''#4fc3f7'', ''#ffd166'']"

text \<open>
  \<open>rnd k\<close> is what the \<open>k\<close>-th call of \<open>Math.random\<close> in one call of \<open>launchConfetti\<close>
  returns; a particle takes eight of them, in the order of the object literal. Numbers
  are reals here, not doubles.
\<close>

definition new_piece :: "(nat \<Rightarrow> real) \<Rightarrow> nat \<Rightarrow> nat \<Rightarrow> nat \<Rightarrow> particle" where
  "new_piece rnd W H i =
     \<lparr>px = rnd (8 * i) * real W,
      py = - 20 - rnd (8 * i + 1) * real H * 0.2,
      pvx = (rnd (8 * i + 2) - 0.5) * 6,
      pvy = 2 + rnd (8 * i + 3) * 6,
      psize = 6 + rnd (8 * i + 4) * 8,
      pcolor = js_index colors (nat \<lfloor>rnd (8 * i + 5) * real (length colors)\<rfloor>),
      prot = rnd (8 * i + 6) * 360,
      pvrot = (rnd (8 * i + 7) - 0.5) * 8\<rparr>"

text \<open>The loop \<open>for (let i=0;i<count;i++) pieces.push(...)\<close>.\<close>

function seed ::
  "(nat \<Rightarrow> real) \<Rightarrow> nat \<Rightarrow> nat \<Rightarrow> nat \<Rightarrow> nat \<Rightarrow> particle list \<Rightarrow> particle list" where
  "seed rnd W H count i ps =
     (if i < count then seed rnd W H count (i + 1) (ps @ [new_piece rnd W H i]) else ps)"
  by pat_completeness auto
termination
  by (relation "measure (\<lambda>(rnd, W, H, count, i, ps). count - i)") auto

definition launchConfetti :: "(nat \<Rightarrow> real) \<Rightarrow> ui \<Rightarrow> ui" where
  "launchConfetti rnd s0 =
     (let s = emit LaunchConfetti s0 in
      if \<not> hasCtx s then s
      else
        (let W = canvasWidth s; H = canvasHeight s;
             count = min 120 (W div 8);
             ps = seed rnd W H count 0 []
         in s\<lparr>confetti := confetti s @
                 [\<lparr>runW = W, runH = H, pieces = ps, tick = 0, pending = True, ops = []\<rparr>]\<rparr>))"

text \<open>The body of \<open>for (const p of pieces)\<close> in \<open>frame\<close>: the particle moved, and what is drawn.\<close>

definition move_piece :: "particle \<Rightarrow> particle" where
  "move_piece p = p\<lparr>px := px p + pvx p, py := py p + pvy p, prot := prot p + pvrot p\<rparr>"

definition draw_piece :: "particle \<Rightarrow> canvas_op list" where
  "draw_piece p =
     [Save, Translate (px p) (py p), Rotate (prot p * pi / 180), FillStyle (pcolor p),
      FillRect (- psize p / 2) (- psize p / 2) (psize p) (psize p), Restore]"

definition frame :: "confetti_run \<Rightarrow> confetti_run" where
  "frame run0 =
     (let clear = ClearRect 0 0 (real (runW run0)) (real (runH run0));
          ps = map move_piece (pieces run0);
          run = run0\<lparr>tick := tick run0 + 1, pieces := ps,
                     ops := ops run0 @ [clear] @ concat (map draw_piece ps)\<rparr>
      in if tick run < 220 then run\<lparr>pending := True\<rparr>
         else run\<lparr>ops := ops run @ [clear]\<rparr>)"

text \<open>
  \<open>resizeCanvas\<close> (lines 21 to 24), with \<open>window.innerWidth\<close> and \<open>window.innerHeight\<close>
  as arguments. The script calls it when it loads and on every resize of the window.
  Assigning a size also wipes what the canvas shows; the model keeps the calls made on
  the context and not the pixels, so this is not tracked.
\<close>

definition resizeCanvas :: "nat \<Rightarrow> nat \<Rightarrow> ui \<Rightarrow> ui" where
  "resizeCanvas innerWidth innerHeight s =
     s\<lparr>canvasWidth := innerWidth, canvasHeight := innerHeight\<rparr>"

text \<open>
  What the browser does while a run is under way: at an animation frame it makes the call
  of \<open>frame\<close> each run has requested, if any; at a resize of the window the listener of
  line 25 runs. A run keeps the \<open>W\<close> and \<open>H\<close> it read when it was launched.
\<close>

datatype browser_event = AnimationFrame | WindowResize nat nat

definition on_frame :: "confetti_run \<Rightarrow> confetti_run" where
  "on_frame run = (if pending run then frame (run\<lparr>pending := False\<rparr>) else run)"

fun browser_step :: "ui \<Rightarrow> browser_event \<Rightarrow> ui" where
  "browser_step s AnimationFrame = s\<lparr>confetti := map on_frame (confetti s)\<rparr>"
| "browser_step s (WindowResize innerWidth innerHeight) = resizeCanvas innerWidth innerHeight s"

definition browser :: "browser_event list \<Rightarrow> ui \<Rightarrow> ui" where
  "browser es s = foldl browser_step s es"

fun is_clear :: "canvas_op \<Rightarrow> bool" where
  "is_clear (ClearRect x y w h) = True"
| "is_clear other = False"

text \<open>The particles and runs one call of \<open>launchConfetti\<close> adds.\<close>

definition new_runs :: "(nat \<Rightarrow> real) \<Rightarrow> ui \<Rightarrow> confetti_run list" where
  "new_runs rnd s = drop (length (confetti s)) (confetti (launchConfetti rnd s))"

definition particles_created :: "(nat \<Rightarrow> real) \<Rightarrow> ui \<Rightarrow> particle list" where
  "particles_created rnd s = concat (map pieces (new_runs rnd s))"

section \<open>State sync: \<open>updateFromState\<close> (lines 189 to 210)\<close>

text \<open>
  \<open>state.board.forEach((v,i) => { renderMark(cells[i], v); })\<close>: with no cell at index
  \<open>i\<close>, \<open>renderMark\<close> assigns to a property of \<open>undefined\<close> and throws.
\<close>

fun render_from :: "nat \<Rightarrow> board \<Rightarrow> cell list \<Rightarrow> completion \<times> cell list" where
  "render_from i [] cs = (Normal, cs)"
| "render_from i (v # vs) cs =
     (if i < length cs then render_from (i + 1) vs (cs[i := renderMark (cs ! i) v])
      else (Thrown, cs))"

definition status_of :: "server_state \<Rightarrow> string" where
  "status_of st =
     (if truthy (winner st)
      then (if winner st = Some ''Tie'' then ''It's a tie!'' else the (winner st) @ '' wins!'')
      else ''Player '' @ current_player st @ '''s turn'')"

text \<open>
  Lines 198 to 202: the search for the winning triple and, when there is one, the line
  between its first and its last cell.
\<close>

definition draw_win_line :: "server_state \<Rightarrow> ui \<Rightarrow> completion \<times> ui" where
  "draw_win_line st s1 =
     (case findWinningTriple (board st) of
        None \<Rightarrow> (Normal, emit (FindWinningTriple (board st)) s1)
      | Some (a, m, c) \<Rightarrow> animateWinLine a c (emit (FindWinningTriple (board st)) s1))"

text \<open>Lines 204 to 208: sound, confetti and the local scoreboard.\<close>

definition celebrate :: "(nat \<Rightarrow> real) \<Rightarrow> server_state \<Rightarrow> ui \<Rightarrow> ui" where
  "celebrate rnd st s2 =
     (let s3 = (if soundOn s2 then beep 320 0.16 0.12 s2 else s2);
          s4 = launchConfetti rnd s3;
          s5 = (if winner st = Some ''X''
                then s4\<lparr>scoreX := incremented (scoreX s4)\<rparr> else s4);
          s6 = (if winner st = Some ''O''
                then s5\<lparr>scoreO := incremented (scoreO s5)\<rparr> else s5)
      in s6)"

definition updateFromState :: "(nat \<Rightarrow> real) \<Rightarrow> server_state \<Rightarrow> ui \<Rightarrow> completion \<times> ui" where
  "updateFromState rnd st s0 =
     (let s = emit (UpdateFromState st) s0 in
      case render_from 0 (board st) (cells s) of
        (Thrown, cs) \<Rightarrow> (Thrown, s\<lparr>cells := cs\<rparr>)
      | (Normal, cs) \<Rightarrow>
         (let s1 = setStatus (status_of st) (s\<lparr>cells := cs\<rparr>) in
          if truthy (winner st) \<and> winner st \<noteq> Some ''Tie'' then
            (case draw_win_line st s1 of
               (Thrown, s2) \<Rightarrow> (Thrown, s2)
             | (Normal, s2) \<Rightarrow> (Normal, celebrate rnd st s2))
          else (Normal, s1)))"

section \<open>Requests: \<open>requestAiMove\<close> and \<open>postMove\<close> (lines 154 to 175)\<close>

text \<open>
  Each function awaits its own request, so its steps run in order; the response is an
  argument, and so are the random numbers of the \<open>updateFromState\<close> it leads to. What
  other handlers do while a request is in flight is not part of the model. The two other
  requests of the script, \<open>createNewGame\<close> and \<open>resetBoard\<close>, reach the page through
  \<open>updateFromState\<close> and \<open>requestAiMove\<close> only and are not modelled.
\<close>

definition requestAiMove :: "response \<Rightarrow> (nat \<Rightarrow> real) \<Rightarrow> ui \<Rightarrow> ui" where
  "requestAiMove res rnd s0 =
     (let s = emit RequestAiMove s0 in
      case gameId s of
        None \<Rightarrow> s
      | Some g \<Rightarrow>
         (let s1 = emit (Fetch (''/api/ai_move/'' @ g) NoBody) s in
          case res of
            Failure \<Rightarrow> emit ConsoleError s1
          | Response ok data \<Rightarrow>
             if \<not> ok then
               (case data_state data of
                  None \<Rightarrow> s1
                | Some st \<Rightarrow>
                   (case updateFromState rnd st s1 of
                      (Thrown, s2) \<Rightarrow> emit ConsoleError s2
                    | (Normal, s2) \<Rightarrow> s2))
             else
               (case data_state data of
                  None \<Rightarrow> emit ConsoleError s1
                | Some st \<Rightarrow>
                   (case updateFromState rnd st s1 of
                      (Thrown, s2) \<Rightarrow> emit ConsoleError s2
                    | (Normal, s2) \<Rightarrow> beep 520 0.08 0.06 s2))))"

definition postMove ::
  "nat \<Rightarrow> response \<Rightarrow> (nat \<Rightarrow> real) \<Rightarrow> response \<Rightarrow> (nat \<Rightarrow> real) \<Rightarrow> ui \<Rightarrow> ui" where
  "postMove index res rnd aiRes aiRnd s0 =
     (let s = emit (PostMove index) s0 in
      case gameId s of
        None \<Rightarrow> setStatus ''Press New Game'' s
      | Some g \<Rightarrow>
         (let s1 = emit (Fetch (''/api/move/'' @ g) (IndexBody index)) s in
          case res of
            Failure \<Rightarrow> setStatus ''Error'' (emit ConsoleError s1)
          | Response ok data \<Rightarrow>
             if \<not> ok then
               setStatus (if truthy (data_error data) then the (data_error data)
                          else ''Move rejected'') s1
             else
               (case data_state data of
                  None \<Rightarrow> setStatus ''Error'' (emit ConsoleError s1)
                | Some st \<Rightarrow>
                   (case updateFromState rnd st s1 of
                      (Thrown, s2) \<Rightarrow> setStatus ''Error'' (emit ConsoleError s2)
                    | (Normal, s2) \<Rightarrow>
                       (let s3 = beep 880 0.06 0.04 s2 in
                        if \<not> truthy (winner st) then requestAiMove aiRes aiRnd s3
                        else s3)))))"

section \<open>Cell handlers: click and keydown (lines 223 to 240)\<close>

text \<open>
  \<open>click idx\<close> is the click listener of the cell at index \<open>idx\<close>; there is a listener
  for each cell of the page and for nothing else.
\<close>

definition click ::
  "nat \<Rightarrow> response \<Rightarrow> (nat \<Rightarrow> real) \<Rightarrow> response \<Rightarrow> (nat \<Rightarrow> real) \<Rightarrow> ui \<Rightarrow> ui" where
  "click idx res rnd aiRes aiRnd s =
     (case js_index (cells s) idx of
        None \<Rightarrow> s
      | Some cellEl \<Rightarrow>
          if trim (textContent cellEl) \<noteq> [] then s
          else postMove idx res rnd aiRes aiRnd s)"

definition focusCell :: "nat \<Rightarrow> ui \<Rightarrow> completion \<times> ui" where
  "focusCell i s0 =
     (let s = emit (FocusCell i) s0 in
      case js_index (cells s) i of
        None \<Rightarrow> (Thrown, s)
      | Some cellEl \<Rightarrow> (Normal, s\<lparr>focused := Some i\<rparr>))"

text \<open>
  The keydown listener of the cell at index \<open>idx\<close>. An exception of \<open>focusCell\<close> ends
  the listener; the four tests of the arrow keys exclude one another.
\<close>

definition keydown ::
  "nat \<Rightarrow> string \<Rightarrow> response \<Rightarrow> (nat \<Rightarrow> real) \<Rightarrow> response \<Rightarrow> (nat \<Rightarrow> real) \<Rightarrow> ui
     \<Rightarrow> completion \<times> ui" where
  "keydown idx key res rnd aiRes aiRnd s0 =
     (case js_index (cells s0) idx of
        None \<Rightarrow> (Normal, s0)
      | Some cellEl \<Rightarrow>
         (let s = (if key = ''Enter'' \<or> key = '' ''
                   then click idx res rnd aiRes aiRnd (emit PreventDefault s0) else s0);
              col = idx mod 3; row = idx div 3
          in if key = ''ArrowRight'' then focusCell ((row * 3) + ((col + 1) mod 3)) s
             else if key = ''ArrowLeft'' then focusCell ((row * 3) + ((col + 2) mod 3)) s
             else if key = ''ArrowDown'' then focusCell (((row + 1) mod 3) * 3 + col) s
             else if key = ''ArrowUp'' then focusCell (((row + 2) mod 3) * 3 + col) s
             else (Normal, s)))"

section \<open>Observations and example inputs\<close>

text \<open>The requests a state has logged, in the order they were sent.\<close>

fun is_request :: "event \<Rightarrow> bool" where
  "is_request (Fetch url body) = True"
| "is_request e = False"

definition requests :: "ui \<Rightarrow> event list" where
  "requests s = filter is_request (trace s)"

text \<open>
  A page with nine cells of 100 by 100 pixels in a 3 by 3 grid, the board at (10, 20),
  a canvas of 800 by 600 with a 2D context, a game under way and both scores at 0.
\<close>

definition grid_cell :: "nat \<Rightarrow> cell" where
  "grid_cell i =
     \<lparr>innerHTML = [], svgStroke = None,
      cellRect = \<lparr>rleft = 10 + 100 * real (i mod 3), rright = 110 + 100 * real (i mod 3),
                  rtop = 20 + 100 * real (i div 3), rbottom = 120 + 100 * real (i div 3)\<rparr>\<rparr>"

definition example_page :: ui where
  "example_page =
     \<lparr>gameId = Some ''g1'', soundOn = True, hasCtx = True, hasAudio = True,
      canvasWidth = 800, canvasHeight = 600,
      cells = [grid_cell 0, grid_cell 1, grid_cell 2, grid_cell 3, grid_cell 4,
               grid_cell 5, grid_cell 6, grid_cell 7, grid_cell 8],
      boardRect = \<lparr>rleft = 10, rright = 310, rtop = 20, rbottom = 320\<rparr>,
      focused = None, statusText = [], scoreX = ''0'', scoreO = ''0'',
      winLine = \<lparr>x1 = 0, y1 = 0, x2 = 0, y2 = 0, opacity = 0, transition = [],
                  strokeDashoffset = 0\<rparr>,
      timers = [], confetti = [], trace = []\<rparr>"

text \<open>The same page on a canvas that gives no 2D context.\<close>

definition no_context_page :: ui where
  "no_context_page = example_page\<lparr>hasCtx := False\<rparr>"

definition half_rnd :: "nat \<Rightarrow> real" where
  "half_rnd k = 1 / 2"

text \<open>
  The same page with a canvas of 8 by 600, on which confetti is launched; the window
  grows to 8 by 900 after 100 of the 220 animation frames that follow.
\<close>

definition narrow_page :: ui where
  "narrow_page = example_page\<lparr>canvasWidth := 8\<rparr>"

definition resize_schedule :: "browser_event list" where
  "resize_schedule =
     replicate 100 AnimationFrame @ [WindowResize 8 900] @ replicate 120 AnimationFrame"

definition resized_page :: ui where
  "resized_page = browser resize_schedule (launchConfetti half_rnd narrow_page)"

definition opening_state :: server_state where
  "opening_state =
     \<lparr>board = [''X'', [], [], [], [], [], [], [], []], current_player = ''O'',
      winner = None\<rparr>"

definition x_row_state :: server_state where
  "x_row_state =
     \<lparr>board = [''X'', ''X'', ''X'', ''O'', ''O'', [], [], [], []], current_player = ''O'',
      winner = Some ''X''\<rparr>"

definition tie_state :: server_state where
  "tie_state =
     \<lparr>board = [''X'', ''O'', ''X'', ''X'', ''O'', ''O'', ''O'', ''X'', ''X''],
      current_player = ''O'', winner = Some ''Tie''\<rparr>"

text \<open>The example page after the opening state, with X in cell 0, has been applied.\<close>

definition occupied_page :: ui where
  "occupied_page = snd (updateFromState half_rnd opening_state example_page)"

definition ai_failure :: payload where
  "ai_failure =
     \<lparr>data_error = Some ''AI unavailable'', data_state = Some tie_state, data_game_id = None\<rparr>"





definition rejection :: payload where
  "rejection = \<lparr>data_error = Some ''Cell occupied'', data_state = None, data_game_id = None\<rparr>"

section \<open>Properties of the text helpers\<close>

declare decimal.simps [simp del] seed.simps [simp del]

lemma digit_not_space: "is_digit ch \<Longrightarrow> \<not> is_space ch"
  by (auto simp: is_digit_def is_space_def)

lemma trim_digits:
  assumes "list_all is_digit t"
  shows "trim t = t"
proof (cases "t = []")
  case True
  then show ?thesis by (simp add: trim_def)
next
  case False
  with assms have "is_digit (hd t)" and "is_digit (last t)"
    by (simp_all add: list_all_iff)
  then have h: "\<not> is_space (hd t)" and l: "\<not> is_space (hd (rev t))"
    by (simp_all add: digit_not_space hd_rev)
  from h have a: "dropWhile is_space t = t"
    by (simp add: dropWhile_eq_self_iff)
  from l have b: "dropWhile is_space (rev t) = rev t"
    by (simp add: dropWhile_eq_self_iff)
  show ?thesis by (simp add: trim_def a b)
qed

lemma is_digit_char_of: "d < 10 \<Longrightarrow> is_digit (char_of (48 + (d::nat)))"
  by (simp add: is_digit_def)

lemma decimal_digits: "list_all is_digit (decimal n)"
proof (induction n rule: decimal.induct)
  case (1 n)
  show ?case
  proof (cases "n < 10")
    case True
    then show ?thesis by (simp add: decimal.simps [of n] is_digit_char_of)
  next
    case False
    with 1 show ?thesis
      by (simp add: decimal.simps [of n] is_digit_char_of)
  qed
qed

lemma decimal_not_Nil: "decimal n \<noteq> []"
  by (simp add: decimal.simps [of n])

lemma digits_value_snoc:
  "digits_value (txt @ [ch]) = 10 * digits_value txt + (of_char ch - 48)"
  by (simp add: digits_value_def)

lemma digits_value_decimal: "digits_value (decimal n) = n"
proof (induction n rule: decimal.induct)
  case (1 n)
  show ?case
  proof (cases "n < 10")
    case True
    then show ?thesis by (simp add: decimal.simps [of n] digits_value_def)
  next
    case False
    with 1 have "digits_value (decimal (n div 10)) = n div 10" by simp
    with False show ?thesis
      by (simp add: decimal.simps [of n] digits_value_snoc)
  qed
qed

lemma Number_of_text_decimal: "n < 2 ^ 53 \<Longrightarrow> Number_of_text (decimal n) = Some n"
  by (simp add: Number_of_text_def trim_digits decimal_digits decimal_not_Nil
      digits_value_decimal)

lemma strip_SVG_X: "strip_tags False SVG_X = []"
  by (simp add: SVG_X_def)

lemma strip_SVG_O: "strip_tags False SVG_O = []"
  by (simp add: SVG_O_def)

lemma textContent_renderMark: "textContent (renderMark cellEl mark) = []"
  by (simp add: textContent_def renderMark_def strip_SVG_X strip_SVG_O)

section \<open>Properties of the win detector\<close>

lemma lines_scan_order: "lines = scan_order"
  by (simp add: lines_def scan_order_def rows_def columns_def diagonals_def)

lemma lines_in_board: "(a, m, c) \<in> set lines \<Longrightarrow> a < 9 \<and> m < 9 \<and> c < 9"
  by (auto simp: lines_def)

lemma scan_find:
  assumes "\<forall>l \<in> set ls. case l of (a, m, c) \<Rightarrow> a < length b \<and> m < length b \<and> c < length b"
  shows "scan b ls = List.find (fully_owned b) ls"
  using assms
proof (induction ls)
  case Nil
  show ?case by simp
next
  case (Cons l ls)
  obtain a m c where l: "l = (a, m, c)" by (cases l)
  from Cons.prems l have inb: "a < length b" "m < length b" "c < length b" by auto
  from Cons have rest: "scan b ls = List.find (fully_owned b) ls" by simp
  have "(truthy (js_index b a) \<and> js_index b a = js_index b m \<and> js_index b a = js_index b c) = fully_owned b (a, m, c)"
    using inb by (auto simp: js_index_def truthy_def)
  with rest l show ?case by simp
qed

lemma findWinningTriple_find:
  assumes "length b = 9"
  shows "findWinningTriple b = List.find (fully_owned b) scan_order"
proof -
  have "\<forall>l \<in> set lines. case l of (a, m, c) \<Rightarrow> a < length b \<and> m < length b \<and> c < length b"
    using assms lines_in_board by fastforce
  then have "scan b lines = List.find (fully_owned b) lines"
    by (rule scan_find)
  then show ?thesis
    by (simp add: findWinningTriple_def lines_scan_order)
qed

lemma distinct_scan_order: "distinct scan_order"
  by (simp add: scan_order_def rows_def columns_def diagonals_def)

lemma length_scan_order: "length scan_order = 8"
  by (simp add: scan_order_def rows_def columns_def diagonals_def)

lemma first_owned:
  assumes "length b = 9"
  shows "findWinningTriple b = Some l \<longleftrightarrow>
      (\<exists>i<8. l = scan_order ! i \<and> fully_owned b l \<and>
              (\<forall>k<i. \<not> fully_owned b (scan_order ! k)))"
proof -
  have "findWinningTriple b = Some l \<longleftrightarrow>
      (\<exists>i<length scan_order. fully_owned b (scan_order ! i) \<and> l = scan_order ! i \<and>
              (\<forall>k<i. \<not> fully_owned b (scan_order ! k)))"
    by (simp only: findWinningTriple_find [OF assms] find_Some_iff)
  then show ?thesis
    unfolding length_scan_order by metis
qed

lemma none_owned:
  assumes "length b = 9"
  shows "findWinningTriple b = None \<longleftrightarrow> (\<forall>l' \<in> set scan_order. \<not> fully_owned b l')"
  unfolding findWinningTriple_find [OF assms] find_None_iff by blast

lemma only_owned:
  assumes "length b = 9" and "l \<in> set scan_order" and "fully_owned b l"
    and "\<forall>l' \<in> set scan_order. fully_owned b l' \<longrightarrow> l' = l"
  shows "findWinningTriple b = Some l"
proof (cases "findWinningTriple b")
  case None
  with assms(1-3) show ?thesis by (simp add: none_owned)
next
  case (Some l')
  then obtain i where "i < 8" "l' = scan_order ! i" "fully_owned b l'"
    using first_owned [OF assms(1), of l'] by blast
  then have "l' \<in> set scan_order" "fully_owned b l'"
    by (simp_all add: length_scan_order)
  with assms(4) have "l' = l" by blast
  with Some show ?thesis by simp
qed

lemma earlier_owned:
  assumes "length b = 9" and "i < j" and "j < 8" and "fully_owned b (scan_order ! i)"
    and "\<forall>k<i. \<not> fully_owned b (scan_order ! k)"
  shows "findWinningTriple b = Some (scan_order ! i)"
proof -
  from assms(2,3) have "i < 8" by simp
  with assms(4,5) show ?thesis
    unfolding first_owned [OF assms(1)] by blast
qed

text \<open>
  Claim C1. For every 9-element board, \<open>findWinningTriple\<close> returns the first line, in the
  scan order rows, columns, diagonals, whose three cells are non-empty and identical, and
  none when there is no such line. So: a board with exactly one fully owned line gives that
  line, a board with no fully owned line gives none, and a board with two fully owned lines
  gives the one that comes first in the scan order.
\<close>

theorem findWinningTriple_first_owned_line:
  assumes "length b = 9"
  shows "(findWinningTriple b = Some l \<longleftrightarrow>
            (\<exists>i<8. l = scan_order ! i \<and> fully_owned b l \<and>
                    (\<forall>k<i. \<not> fully_owned b (scan_order ! k))))
       \<and> (findWinningTriple b = None \<longleftrightarrow> (\<forall>l' \<in> set scan_order. \<not> fully_owned b l'))
       \<and> (l \<in> set scan_order \<and> fully_owned b l \<and>
            (\<forall>l' \<in> set scan_order. fully_owned b l' \<longrightarrow> l' = l) \<longrightarrow>
              findWinningTriple b = Some l)
       \<and> (\<forall>i j. i < j \<and> j < 8 \<and> fully_owned b (scan_order ! i) \<and>
                 fully_owned b (scan_order ! j) \<and>
                 (\<forall>k<i. \<not> fully_owned b (scan_order ! k)) \<longrightarrow>
              findWinningTriple b = Some (scan_order ! i))"
proof (intro conjI allI impI)
  show "findWinningTriple b = Some l \<longleftrightarrow>
            (\<exists>i<8. l = scan_order ! i \<and> fully_owned b l \<and>
                    (\<forall>k<i. \<not> fully_owned b (scan_order ! k)))"
    using assms by (rule first_owned)
  show "findWinningTriple b = None \<longleftrightarrow> (\<forall>l' \<in> set scan_order. \<not> fully_owned b l')"
    using assms by (rule none_owned)
next
  assume "l \<in> set scan_order \<and> fully_owned b l \<and>
            (\<forall>l' \<in> set scan_order. fully_owned b l' \<longrightarrow> l' = l)"
  then show "findWinningTriple b = Some l"
    using only_owned [OF assms, of l] by blast
next
  fix i j
  assume "i < j \<and> j < 8 \<and> fully_owned b (scan_order ! i) \<and>
                 fully_owned b (scan_order ! j) \<and>
                 (\<forall>k<i. \<not> fully_owned b (scan_order ! k))"
  then show "findWinningTriple b = Some (scan_order ! i)"
    using earlier_owned [OF assms, of i j] by blast
qed

theorem findWinningTriple_first_owned_line_witness:
  "length [''X'', ''X'', ''X'', ''X'', [], [], ''X'', [], []] = 9
   \<and> fully_owned [''X'', ''X'', ''X'', ''X'', [], [], ''X'', [], []] (scan_order ! 0)
   \<and> fully_owned [''X'', ''X'', ''X'', ''X'', [], [], ''X'', [], []] (scan_order ! 3)
   \<and> findWinningTriple [''X'', ''X'', ''X'', ''X'', [], [], ''X'', [], []] = Some (0, 1, 2)"
proof -
  let ?b = "[''X'', ''X'', ''X'', ''X'', [], [], ''X'', [], []]"
  have len: "length ?b = 9" by simp
  have so: "scan_order ! 0 = (0, 1, 2)" "scan_order ! 3 = (0, 3, 6)"
    by (simp_all add: scan_order_def rows_def columns_def diagonals_def)
  have o0: "fully_owned ?b (scan_order ! 0)" and o3: "fully_owned ?b (scan_order ! 3)"
    by (simp_all add: so)
  have "\<forall>i j. i < j \<and> j < 8 \<and> fully_owned ?b (scan_order ! i) \<and>
                 fully_owned ?b (scan_order ! j) \<and>
                 (\<forall>k<i. \<not> fully_owned ?b (scan_order ! k)) \<longrightarrow>
              findWinningTriple ?b = Some (scan_order ! i)"
    using findWinningTriple_first_owned_line [OF len, of "(0, 1, 2)"] by (elim conjE)
  then have "(0::nat) < 3 \<and> (3::nat) < 8 \<and> fully_owned ?b (scan_order ! 0) \<and>
                 fully_owned ?b (scan_order ! 3) \<and>
                 (\<forall>k<0. \<not> fully_owned ?b (scan_order ! k)) \<longrightarrow>
              findWinningTriple ?b = Some (scan_order ! 0)"
    by blast
  with o0 o3 have "findWinningTriple ?b = Some (scan_order ! 0)"
    by simp
  with len o0 o3 so show ?thesis by simp
qed

section \<open>Properties of rendering and of the win block\<close>

lemma render_from_fits:
  "i + length b \<le> length cs \<Longrightarrow>
   fst (render_from i b cs) = Normal \<and>
   length (snd (render_from i b cs)) = length cs \<and>
   map cellRect (snd (render_from i b cs)) = map cellRect cs"
proof (induction b arbitrary: i cs)
  case Nil
  show ?case by simp
next
  case (Cons v vs)
  let ?cs = "cs[i := renderMark (cs ! i) v]"
  from Cons.prems have i: "i < length cs" and fits: "(i + 1) + length vs \<le> length ?cs"
    by simp_all
  have rects: "map cellRect ?cs = map cellRect cs"
    using i by (simp add: map_update renderMark_def list_update_same_conv)
  from Cons.IH [OF fits] i rects show ?case by simp
qed

lemma scan_in_board:
  "scan b ls = Some (a, m, c) \<Longrightarrow> a < length b \<and> m < length b \<and> c < length b"
proof (induction ls)
  case Nil
  then show ?case by simp
next
  case (Cons l ls)
  obtain a' m' c' where l: "l = (a', m', c')" by (cases l)
  define hit where "hit \<longleftrightarrow> truthy (js_index b a') \<and> js_index b a' = js_index b m' \<and>
              js_index b a' = js_index b c'"
  have unfold: "scan b (l # ls) = (if hit then Some (a', m', c') else scan b ls)"
    by (simp add: l hit_def)
  show ?case
  proof (cases hit)
    case True
    with unfold Cons.prems have eq: "a' = a" "m' = m" "c' = c" by simp_all
    from True have "a' < length b \<and> m' < length b \<and> c' < length b"
      unfolding hit_def by (auto simp: truthy_def js_index_def split: if_splits)
    with eq show ?thesis by simp
  next
    case False
    with unfold Cons.prems have "scan b ls = Some (a, m, c)" by simp
    then show ?thesis by (rule Cons.IH)
  qed
qed

lemma findWinningTriple_in_board:
  "findWinningTriple b = Some (a, m, c) \<Longrightarrow> a < length b \<and> m < length b \<and> c < length b"
  unfolding findWinningTriple_def by (rule scan_in_board)

lemma requests_emit: "requests (emit e s) = requests s @ (if is_request e then [e] else [])"
  by (simp add: requests_def emit_def)

lemma requests_setStatus: "requests (setStatus txt s) = requests s"
  by (simp add: requests_def setStatus_def)


lemma requests_launchConfetti: "requests (launchConfetti rnd s) = requests s"
  by (simp add: requests_def launchConfetti_def emit_def Let_def)

lemma requests_animateWinLine: "requests (snd (animateWinLine a b s)) = requests s"
  by (simp add: requests_def animateWinLine_def emit_def Let_def split: option.splits)

lemma gameId_beep: "gameId (beep f d v s) = gameId s"
  by (simp add: beep_def)

lemma gameId_launchConfetti: "gameId (launchConfetti rnd s) = gameId s"
  by (simp add: launchConfetti_def emit_def Let_def)

lemma gameId_animateWinLine: "gameId (snd (animateWinLine a b s)) = gameId s"
  by (simp add: animateWinLine_def emit_def Let_def split: option.splits)

lemma gameId_draw_win_line: "gameId (snd (draw_win_line st s)) = gameId s"
  by (simp add: draw_win_line_def gameId_animateWinLine emit_def split: option.splits)

lemma requests_draw_win_line: "requests (snd (draw_win_line st s)) = requests s"
  by (simp add: draw_win_line_def requests_animateWinLine requests_emit split: option.splits)

lemma gameId_celebrate: "gameId (celebrate rnd st s) = gameId s"
  by (simp add: celebrate_def Let_def gameId_beep gameId_launchConfetti)

lemma requests_celebrate: "requests (celebrate rnd st s) = requests s"
  by (simp add: celebrate_def Let_def requests_def beep_def launchConfetti_def emit_def)

lemma updateFromState_cases:
  obtains
    (render_throws) cs where
      "render_from 0 (board st) (cells s) = (Thrown, cs)"
      "updateFromState rnd st s = (Thrown, (emit (UpdateFromState st) s)\<lparr>cells := cs\<rparr>)"
  | (quiet) cs where
      "render_from 0 (board st) (cells s) = (Normal, cs)"
      "\<not> (truthy (winner st) \<and> winner st \<noteq> Some ''Tie'')"
      "updateFromState rnd st s =
         (Normal, setStatus (status_of st) ((emit (UpdateFromState st) s)\<lparr>cells := cs\<rparr>))"
  | (line_throws) cs s2 where
      "render_from 0 (board st) (cells s) = (Normal, cs)"
      "truthy (winner st)" "winner st \<noteq> Some ''Tie''"
      "draw_win_line st
         (setStatus (status_of st) ((emit (UpdateFromState st) s)\<lparr>cells := cs\<rparr>)) = (Thrown, s2)"
      "updateFromState rnd st s = (Thrown, s2)"
  | (win) cs s2 where
      "render_from 0 (board st) (cells s) = (Normal, cs)"
      "truthy (winner st)" "winner st \<noteq> Some ''Tie''"
      "draw_win_line st
         (setStatus (status_of st) ((emit (UpdateFromState st) s)\<lparr>cells := cs\<rparr>)) = (Normal, s2)"
      "updateFromState rnd st s = (Normal, celebrate rnd st s2)"
proof -
  obtain r cs where rf: "render_from 0 (board st) (cells s) = (r, cs)"
    by (cases "render_from 0 (board st) (cells s)")
  let ?s1 = "setStatus (status_of st) ((emit (UpdateFromState st) s)\<lparr>cells := cs\<rparr>)"
  obtain r2 s2 where dl: "draw_win_line st ?s1 = (r2, s2)"
    by (cases "draw_win_line st ?s1")
  show thesis
  proof (cases r)
    case Thrown
    with rf show thesis
      by (intro render_throws [of cs]) (auto simp: updateFromState_def Let_def emit_def)
  next
    case Normal
    show thesis
    proof (cases "truthy (winner st) \<and> winner st \<noteq> Some ''Tie''")
      case False
      with rf Normal show thesis
        by (intro quiet [of cs]) (auto simp: updateFromState_def Let_def emit_def)
    next
      case True
      show thesis
      proof (cases r2)
        case Thrown
        with rf Normal True dl show thesis
          by (intro line_throws [of cs s2]) (auto simp: updateFromState_def Let_def emit_def)
      next
        case Normal
        with rf \<open>r = Normal\<close> True dl show thesis
          by (intro win [of cs s2]) (auto simp: updateFromState_def Let_def emit_def)
      qed
    qed
  qed
qed

lemma updateFromState_session:
  "gameId (snd (updateFromState rnd st s)) = gameId s \<and>
   requests (snd (updateFromState rnd st s)) = requests s"
proof (cases rule: updateFromState_cases [of st s rnd])
  case (render_throws cs)
  then show ?thesis by (simp add: emit_def requests_def)
next
  case (quiet cs)
  then show ?thesis by (simp add: emit_def requests_def setStatus_def)
next
  case (line_throws cs s2)
  from line_throws(4) have "s2 = snd (draw_win_line st
         (setStatus (status_of st) ((emit (UpdateFromState st) s)\<lparr>cells := cs\<rparr>)))"
    by simp
  then have "gameId s2 = gameId s \<and> requests s2 = requests s"
    by (simp add: gameId_draw_win_line requests_draw_win_line)
       (simp add: emit_def requests_def setStatus_def)
  with line_throws(5) show ?thesis by simp
next
  case (win cs s2)
  from win(4) have "s2 = snd (draw_win_line st
         (setStatus (status_of st) ((emit (UpdateFromState st) s)\<lparr>cells := cs\<rparr>)))"
    by simp
  then have "gameId s2 = gameId s \<and> requests s2 = requests s"
    by (simp add: gameId_draw_win_line requests_draw_win_line)
       (simp add: emit_def requests_def setStatus_def)
  with win(5) show ?thesis by (simp add: gameId_celebrate requests_celebrate)
qed

lemma render_from_nth:
  "i + length b \<le> length cs \<Longrightarrow> k < length cs \<Longrightarrow>
   snd (render_from i b cs) ! k =
     (if i \<le> k \<and> k < i + length b then renderMark (cs ! k) (b ! (k - i)) else cs ! k)"
proof (induction b arbitrary: i cs)
  case Nil
  then show ?case by auto
next
  case (Cons v vs)
  let ?cs = "cs[i := renderMark (cs ! i) v]"
  from Cons.prems have i: "i < length cs" and fits: "(i + 1) + length vs \<le> length ?cs"
    and k: "k < length ?cs"
    by simp_all
  have step: "snd (render_from i (v # vs) cs) ! k = snd (render_from (i + 1) vs ?cs) ! k"
    using i by simp
  have ih: "snd (render_from (i + 1) vs ?cs) ! k =
     (if i + 1 \<le> k \<and> k < (i + 1) + length vs then renderMark (?cs ! k) (vs ! (k - (i + 1)))
      else ?cs ! k)"
    using fits k by (rule Cons.IH)
  show ?case
  proof (cases "k = i")
    case True
    with ih step i show ?thesis by simp
  next
    case False
    then have same: "?cs ! k = cs ! k" by simp
    show ?thesis
    proof (cases "i + 1 \<le> k \<and> k < (i + 1) + length vs")
      case True
      then have "k - i = Suc (k - (i + 1))" by arith
      then have "(v # vs) ! (k - i) = vs ! (k - (i + 1))" by simp
      with ih step same True show ?thesis by simp
    next
      case False
      with \<open>k \<noteq> i\<close> have "\<not> (i \<le> k \<and> k < i + length (v # vs))" by auto
      with ih step same False \<open>k \<noteq> i\<close> show ?thesis by auto
    qed
  qed
qed

lemma animateWinLine_frame:
  "cells (snd (animateWinLine a b s)) = cells s \<and>
   boardRect (snd (animateWinLine a b s)) = boardRect s \<and>
   statusText (snd (animateWinLine a b s)) = statusText s \<and>
   scoreX (snd (animateWinLine a b s)) = scoreX s \<and>
   scoreO (snd (animateWinLine a b s)) = scoreO s \<and>
   confetti (snd (animateWinLine a b s)) = confetti s \<and>
   soundOn (snd (animateWinLine a b s)) = soundOn s \<and>
   hasAudio (snd (animateWinLine a b s)) = hasAudio s"
  by (simp add: animateWinLine_def emit_def Let_def split: option.splits)

lemma draw_win_line_frame:
  "cells (snd (draw_win_line st s)) = cells s \<and>
   boardRect (snd (draw_win_line st s)) = boardRect s \<and>
   statusText (snd (draw_win_line st s)) = statusText s \<and>
   scoreX (snd (draw_win_line st s)) = scoreX s \<and>
   scoreO (snd (draw_win_line st s)) = scoreO s \<and>
   confetti (snd (draw_win_line st s)) = confetti s \<and>
   soundOn (snd (draw_win_line st s)) = soundOn s \<and>
   hasAudio (snd (draw_win_line st s)) = hasAudio s"
  by (simp add: draw_win_line_def animateWinLine_frame emit_def split: option.splits)

lemma draw_win_line_None:
  "findWinningTriple (board st) = None \<Longrightarrow>
   draw_win_line st s = (Normal, emit (FindWinningTriple (board st)) s)"
  by (simp add: draw_win_line_def)

lemma draw_win_line_Some:
  assumes "findWinningTriple (board st) = Some (a, m, c)"
    and "a < length (cells s)" and "c < length (cells s)"
  shows "draw_win_line st s =
     (Normal,
      s\<lparr>trace := trace s @ [FindWinningTriple (board st), AnimateWinLine a c],
        winLine := (winLine s)\<lparr>x1 := fst (cell_center s a), y1 := snd (cell_center s a),
                     x2 := fst (cell_center s a), y2 := snd (cell_center s a),
                     opacity := 1, transition := ''opacity .25s linear''\<rparr>,
        timers := timers s @
          [(20, MoveEndpoint (fst (cell_center s c)) (snd (cell_center s c))),
           (1800, FadeLine)]\<rparr>)"
  using assms
  by (simp add: draw_win_line_def animateWinLine_def emit_def Let_def js_index_def
      cell_center_def relative_to_def center_def)

lemma draw_win_line_fits:
  assumes "length (board st) \<le> length (cells s)"
  shows "fst (draw_win_line st s) = Normal"
proof (cases "findWinningTriple (board st)")
  case None
  then show ?thesis by (simp add: draw_win_line_None)
next
  case (Some l)
  obtain a m c where l: "l = (a, m, c)" by (cases l)
  from Some l have "a < length (board st) \<and> m < length (board st) \<and> c < length (board st)"
    by (intro findWinningTriple_in_board) simp
  with assms have "a < length (cells s)" "c < length (cells s)" by simp_all
  with Some l show ?thesis by (simp add: draw_win_line_Some)
qed

lemma celebrate_frame:
  "cells (celebrate rnd st s) = cells s \<and>
   boardRect (celebrate rnd st s) = boardRect s \<and>
   statusText (celebrate rnd st s) = statusText s \<and>
   winLine (celebrate rnd st s) = winLine s"
  by (simp add: celebrate_def Let_def beep_def launchConfetti_def emit_def)

lemma celebrate_scores:
  "scoreX (celebrate rnd st s) =
     (if winner st = Some ''X'' then incremented (scoreX s) else scoreX s) \<and>
   scoreO (celebrate rnd st s) =
     (if winner st = Some ''O'' then incremented (scoreO s) else scoreO s)"
  by (simp add: celebrate_def Let_def beep_def launchConfetti_def emit_def)

lemma updateFromState_fits:
  assumes "length (board st) \<le> length (cells s)"
  shows "fst (updateFromState rnd st s) = Normal"
proof (cases rule: updateFromState_cases [of st s rnd])
  case (render_throws cs)
  from assms have "fst (render_from 0 (board st) (cells s)) = Normal"
    using render_from_fits [of 0 "board st" "cells s"] by simp
  with render_throws(1) show ?thesis by simp
next
  case (quiet cs)
  then show ?thesis by simp
next
  case (line_throws cs s2)
  from assms have "length cs = length (cells s)"
    using render_from_fits [of 0 "board st" "cells s"] line_throws(1) by simp
  with assms have "fst (draw_win_line st
      (setStatus (status_of st) ((emit (UpdateFromState st) s)\<lparr>cells := cs\<rparr>))) = Normal"
    by (intro draw_win_line_fits) (simp add: setStatus_def emit_def)
  with line_throws(4) show ?thesis by simp
next
  case (win cs s2)
  then show ?thesis by simp
qed

lemma updateFromState_cells:
  "cells (snd (updateFromState rnd st s)) = snd (render_from 0 (board st) (cells s))"
proof (cases rule: updateFromState_cases [of st s rnd])
  case (render_throws cs)
  then show ?thesis by simp
next
  case (quiet cs)
  then show ?thesis by (simp add: setStatus_def)
next
  case (line_throws cs s2)
  from line_throws(4) have "cells s2 = cells (snd (draw_win_line st
      (setStatus (status_of st) ((emit (UpdateFromState st) s)\<lparr>cells := cs\<rparr>))))"
    by simp
  then have "cells s2 = cs"
    by (simp add: draw_win_line_frame) (simp add: setStatus_def)
  with line_throws(1,5) show ?thesis by simp
next
  case (win cs s2)
  from win(4) have "cells s2 = cells (snd (draw_win_line st
      (setStatus (status_of st) ((emit (UpdateFromState st) s)\<lparr>cells := cs\<rparr>))))"
    by simp
  then have "cells s2 = cs"
    by (simp add: draw_win_line_frame) (simp add: setStatus_def)
  with win(1,5) show ?thesis by (simp add: celebrate_frame)
qed

lemma updateFromState_status:
  assumes "length (board st) \<le> length (cells s)"
  shows "statusText (snd (updateFromState rnd st s)) = status_of st"
proof (cases rule: updateFromState_cases [of st s rnd])
  case (render_throws cs)
  with updateFromState_fits [OF assms, of rnd] show ?thesis by simp
next
  case (quiet cs)
  then show ?thesis by (simp add: setStatus_def)
next
  case (line_throws cs s2)
  with updateFromState_fits [OF assms, of rnd] show ?thesis by simp
next
  case (win cs s2)
  from win(4) have "statusText s2 = statusText (snd (draw_win_line st
      (setStatus (status_of st) ((emit (UpdateFromState st) s)\<lparr>cells := cs\<rparr>))))"
    by simp
  then have "statusText s2 = status_of st"
    by (simp add: draw_win_line_frame) (simp add: setStatus_def)
  with win(5) show ?thesis by (simp add: celebrate_frame)
qed

section \<open>Properties of state sync and requests\<close>

text \<open>
  Claim C5. For every server state whose winner is \<open>Tie\<close>, \<open>updateFromState\<close> searches no
  winning line, starts no line animation and launches no confetti: the only call it logs
  is its own, and the win line, the timers and the confetti runs are as before.
\<close>

theorem updateFromState_tie_no_celebration:
  assumes "winner st = Some ''Tie''"
  shows "trace (snd (updateFromState rnd st s)) = trace s @ [UpdateFromState st]
       \<and> winLine (snd (updateFromState rnd st s)) = winLine s
       \<and> timers (snd (updateFromState rnd st s)) = timers s
       \<and> confetti (snd (updateFromState rnd st s)) = confetti s"
proof (cases rule: updateFromState_cases [of st s rnd])
  case (render_throws cs)
  then show ?thesis by (simp add: emit_def)
next
  case (quiet cs)
  then show ?thesis by (simp add: emit_def setStatus_def)
next
  case (line_throws cs s2)
  with assms show ?thesis by simp
next
  case (win cs s2)
  with assms show ?thesis by simp
qed

theorem updateFromState_tie_no_celebration_witness:
  "winner tie_state = Some ''Tie''
   \<and> trace (snd (updateFromState half_rnd tie_state example_page)) =
       trace example_page @ [UpdateFromState tie_state]
   \<and> winLine (snd (updateFromState half_rnd tie_state example_page)) = winLine example_page
   \<and> timers (snd (updateFromState half_rnd tie_state example_page)) = timers example_page
   \<and> confetti (snd (updateFromState half_rnd tie_state example_page)) = confetti example_page"
proof -
  have w: "winner tie_state = Some ''Tie''" by (simp add: tie_state_def)
  from updateFromState_tie_no_celebration [OF w, of half_rnd example_page] w
  show ?thesis by simp
qed


text \<open>
  Claim C7. When the response to the AI-move request has a failure status, a state in
  its body is still applied with \<open>updateFromState\<close> (and shown, when the board fits the
  page), and with no state in the body nothing changes but the log of the call and of
  the request: no cell, score or status text changes.
\<close>

theorem requestAiMove_failure_status:
  assumes "gameId s = Some g"
  shows "(data_state data = None \<longrightarrow>
            requestAiMove (Response False data) rnd s =
              s\<lparr>trace := trace s @ [RequestAiMove, Fetch (''/api/ai_move/'' @ g) NoBody]\<rparr>)
       \<and> (\<forall>st. data_state data = Some st \<longrightarrow>
            requestAiMove (Response False data) rnd s =
              (case updateFromState rnd st
                      (s\<lparr>trace := trace s @ [RequestAiMove, Fetch (''/api/ai_move/'' @ g) NoBody]\<rparr>) of
                 (Normal, s2) \<Rightarrow> s2
               | (Thrown, s2) \<Rightarrow> emit ConsoleError s2)
            \<and> (length (board st) \<le> length (cells s) \<longrightarrow>
                 requestAiMove (Response False data) rnd s =
                   snd (updateFromState rnd st
                      (s\<lparr>trace := trace s @ [RequestAiMove, Fetch (''/api/ai_move/'' @ g) NoBody]\<rparr>))
                 \<and> statusText (requestAiMove (Response False data) rnd s) = status_of st))"
proof (intro conjI allI impI)
  let ?s1 = "s\<lparr>trace := trace s @ [RequestAiMove, Fetch (''/api/ai_move/'' @ g) NoBody]\<rparr>"
  show "requestAiMove (Response False data) rnd s = ?s1" if "data_state data = None"
    using assms that by (simp add: requestAiMove_def Let_def emit_def)
  fix st
  assume st: "data_state data = Some st"
  show applied: "requestAiMove (Response False data) rnd s =
      (case updateFromState rnd st ?s1 of (Normal, s2) \<Rightarrow> s2 | (Thrown, s2) \<Rightarrow> emit ConsoleError s2)"
    using assms st
    by (simp add: requestAiMove_def Let_def emit_def split: prod.splits completion.splits)
  assume fits: "length (board st) \<le> length (cells s)"
  then have "length (board st) \<le> length (cells ?s1)" by simp
  then have ok: "fst (updateFromState rnd st ?s1) = Normal"
    and status: "statusText (snd (updateFromState rnd st ?s1)) = status_of st"
    by (rule updateFromState_fits, rule updateFromState_status)
  from applied ok show eq: "requestAiMove (Response False data) rnd s = snd (updateFromState rnd st ?s1)"
    by (simp split: prod.splits completion.splits)
  from eq status show "statusText (requestAiMove (Response False data) rnd s) = status_of st"
    by simp
qed

theorem requestAiMove_failure_status_witness:
  "gameId example_page = Some ''g1''
   \<and> data_state rejection = None
   \<and> requestAiMove (Response False rejection) half_rnd example_page =
       example_page\<lparr>trace := trace example_page @
                        [RequestAiMove, Fetch (''/api/ai_move/'' @ ''g1'') NoBody]\<rparr>
   \<and> data_state ai_failure = Some tie_state
   \<and> length (board tie_state) \<le> length (cells example_page)
   \<and> statusText (requestAiMove (Response False ai_failure) half_rnd example_page) =
       status_of tie_state"
proof -
  have g: "gameId example_page = Some ''g1''" by (simp add: example_page_def)
  have n: "data_state rejection = None" by (simp add: rejection_def)
  have t: "data_state ai_failure = Some tie_state" by (simp add: ai_failure_def)
  have fits: "length (board tie_state) \<le> length (cells example_page)"
    by (simp add: tie_state_def example_page_def)
  from requestAiMove_failure_status [OF g, of rejection half_rnd] n
  have a: "requestAiMove (Response False rejection) half_rnd example_page =
       example_page\<lparr>trace := trace example_page @
                        [RequestAiMove, Fetch (''/api/ai_move/'' @ ''g1'') NoBody]\<rparr>"
    by blast
  from requestAiMove_failure_status [OF g, of ai_failure half_rnd] t fits
  have b: "statusText (requestAiMove (Response False ai_failure) half_rnd example_page) =
       status_of tie_state"
    by blast
  from g n a t fits b show ?thesis by blast
qed






lemma updateFromState_scores:
  assumes "length (board st) \<le> length (cells s)"
  shows "scoreX (snd (updateFromState rnd st s)) =
           (if winner st = Some ''X'' then incremented (scoreX s) else scoreX s)
       \<and> scoreO (snd (updateFromState rnd st s)) =
           (if winner st = Some ''O'' then incremented (scoreO s) else scoreO s)"
proof (cases rule: updateFromState_cases [of st s rnd])
  case (render_throws cs)
  with updateFromState_fits [OF assms, of rnd] show ?thesis by simp
next
  case (quiet cs)
  then have "winner st \<noteq> Some ''X''" "winner st \<noteq> Some ''O''"
    by (auto simp: truthy_def)
  with quiet(3) show ?thesis by (simp add: setStatus_def emit_def)
next
  case (line_throws cs s2)
  with updateFromState_fits [OF assms, of rnd] show ?thesis by simp
next
  case (win cs s2)
  from win(4) have "s2 = snd (draw_win_line st
      (setStatus (status_of st) ((emit (UpdateFromState st) s)\<lparr>cells := cs\<rparr>)))"
    by simp
  then have "scoreX s2 = scoreX s \<and> scoreO s2 = scoreO s"
    by (simp add: draw_win_line_frame) (simp add: setStatus_def emit_def)
  with win(5) show ?thesis by (simp add: celebrate_scores)
qed

lemma Number_or_0_decimal: "n < 2 ^ 53 \<Longrightarrow> Number_or_0 (decimal n) = Some n"
  by (simp add: Number_or_0_def decimal_not_Nil Number_of_text_decimal)

text \<open>
  Claim C9. A state applied with \<open>updateFromState\<close> whose winner is X adds exactly one
  to the X counter and leaves the O counter alone, and the other way round for O; a
  state whose winner is \<open>Tie\<close> or null leaves both alone. The counters are the texts of
  the two score elements, read as numbers; the new text depends on the old text and on
  the winner only, and nothing of it comes from the server.
\<close>

theorem updateFromState_local_scores:
  assumes "length (board st) \<le> length (cells s)"
    and "Number_or_0 (scoreX s) = Some nx" and "Number_or_0 (scoreO s) = Some no"
  shows "(winner st = Some ''X'' \<longrightarrow>
            scoreX (snd (updateFromState rnd st s)) = decimal (nx + 1) \<and>
            scoreO (snd (updateFromState rnd st s)) = scoreO s)
       \<and> (winner st = Some ''O'' \<longrightarrow>
            scoreO (snd (updateFromState rnd st s)) = decimal (no + 1) \<and>
            scoreX (snd (updateFromState rnd st s)) = scoreX s)
       \<and> (winner st = Some ''Tie'' \<or> winner st = None \<longrightarrow>
            scoreX (snd (updateFromState rnd st s)) = scoreX s \<and>
            scoreO (snd (updateFromState rnd st s)) = scoreO s)
       \<and> (nx + 1 < 2 ^ 53 \<longrightarrow> Number_or_0 (decimal (nx + 1)) = Some (nx + 1))
       \<and> (no + 1 < 2 ^ 53 \<longrightarrow> Number_or_0 (decimal (no + 1)) = Some (no + 1))"
proof -
  note sc = updateFromState_scores [OF assms(1), of rnd]
  have x: "incremented (scoreX s) = decimal (nx + 1)"
    and o: "incremented (scoreO s) = decimal (no + 1)"
    using assms(2,3) by (simp_all add: incremented_def)
  show ?thesis
  proof (intro conjI impI)
    assume "winner st = Some ''X''"
    with sc x show "scoreX (snd (updateFromState rnd st s)) = decimal (nx + 1)"
      and "scoreO (snd (updateFromState rnd st s)) = scoreO s" by simp_all
  next
    assume "winner st = Some ''O''"
    with sc o show "scoreO (snd (updateFromState rnd st s)) = decimal (no + 1)"
      and "scoreX (snd (updateFromState rnd st s)) = scoreX s" by simp_all
  next
    assume "winner st = Some ''Tie'' \<or> winner st = None"
    then have "winner st \<noteq> Some ''X''" "winner st \<noteq> Some ''O''" by auto
    with sc show "scoreX (snd (updateFromState rnd st s)) = scoreX s"
      and "scoreO (snd (updateFromState rnd st s)) = scoreO s" by simp_all
  next
    assume "nx + 1 < 2 ^ 53"
    then show "Number_or_0 (decimal (nx + 1)) = Some (nx + 1)" by (rule Number_or_0_decimal)
  next
    assume "no + 1 < 2 ^ 53"
    then show "Number_or_0 (decimal (no + 1)) = Some (no + 1)" by (rule Number_or_0_decimal)
  qed
qed

lemma decimal_0: "decimal 0 = ''0''"
  by code_simp

lemma decimal_1: "decimal 1 = ''1''"
  by code_simp

theorem updateFromState_local_scores_witness:
  "length (board x_row_state) \<le> length (cells example_page)
   \<and> Number_or_0 (scoreX example_page) = Some 0
   \<and> Number_or_0 (scoreO example_page) = Some 0
   \<and> winner x_row_state = Some ''X''
   \<and> scoreX (snd (updateFromState half_rnd x_row_state example_page)) = ''1''
   \<and> scoreO (snd (updateFromState half_rnd x_row_state example_page)) = ''0''
   \<and> Number_or_0 ''1'' = Some 1"
proof -
  have fits: "length (board x_row_state) \<le> length (cells example_page)"
    by (simp add: x_row_state_def example_page_def)
  have "Number_or_0 (decimal 0) = Some 0" by (rule Number_or_0_decimal) simp
  then have z: "Number_or_0 ''0'' = Some 0" by (simp only: decimal_0)
  then have nx: "Number_or_0 (scoreX example_page) = Some 0"
    and no: "Number_or_0 (scoreO example_page) = Some 0"
    by (simp_all add: example_page_def)
  have w: "winner x_row_state = Some ''X''" by (simp add: x_row_state_def)
  have so: "scoreO example_page = ''0''" by (simp add: example_page_def)
  have d1: "decimal (0 + 1) = ''1''" using decimal_1 by simp
  note inst = updateFromState_local_scores [OF fits nx no, of half_rnd]
  from inst w have sx: "scoreX (snd (updateFromState half_rnd x_row_state example_page)) = ''1''"
    unfolding d1 by blast
  from inst w so have sO: "scoreO (snd (updateFromState half_rnd x_row_state example_page)) = ''0''"
    by simp
  from inst have n1: "Number_or_0 ''1'' = Some 1"
    unfolding d1 by simp
  from fits nx no w sx sO n1 show ?thesis by blast
qed

section \<open>Properties of the click listener\<close>

lemma click_empty_text:
  assumes "idx < length (cells s)" and "textContent (cells s ! idx) = []"
  shows "click idx res rnd aiRes aiRnd s = postMove idx res rnd aiRes aiRnd s"
  using assms by (simp add: click_def js_index_def trim_def)

text \<open>
  Whatever mark a state puts in a cell, the cell's text is empty afterwards, so the test
  of the click listener lets the click through.
\<close>

lemma click_after_updateFromState:
  assumes "length (board st) \<le> length (cells s)" and "idx < length (board st)"
  shows "click idx res rnd aiRes aiRnd (snd (updateFromState rnd0 st s)) =
         postMove idx res rnd aiRes aiRnd (snd (updateFromState rnd0 st s))"
proof -
  let ?s' = "snd (updateFromState rnd0 st s)"
  have cs: "cells ?s' = snd (render_from 0 (board st) (cells s))"
    by (rule updateFromState_cells)
  from assms have fits: "0 + length (board st) \<le> length (cells s)"
    and idx: "idx < length (cells s)" by simp_all
  have len: "length (cells ?s') = length (cells s)"
    unfolding cs using render_from_fits [OF fits] by simp
  have "cells ?s' ! idx = renderMark (cells s ! idx) (board st ! idx)"
    unfolding cs using render_from_nth [OF fits idx] assms(2) by simp
  then have "textContent (cells ?s' ! idx) = []"
    by (simp add: textContent_renderMark)
  with len idx show ?thesis by (intro click_empty_text) simp_all
qed

text \<open>
  Claim C2, at a concrete input. The example page has a game under way; the opening
  state puts X in cell 0, and its markup is \<open>SVG_X\<close>, which holds no text. A click on
  cell 0 calls \<open>postMove\<close> and sends the move to the server; when the server rejects it,
  the status text changes. The claim says that no request is sent and nothing changes.
\<close>

theorem click_occupied_cell_posts_move:
  "board opening_state ! 0 = ''X''
   \<and> innerHTML (cells occupied_page ! 0) = SVG_X
   \<and> trace (click 0 (Response False rejection) half_rnd Failure half_rnd occupied_page) =
       trace occupied_page @ [PostMove 0, Fetch ''/api/move/g1'' (IndexBody 0)]
   \<and> statusText occupied_page = ''Player O's turn''
   \<and> statusText (click 0 (Response False rejection) half_rnd Failure half_rnd occupied_page) =
       ''Cell occupied''"
proof -
  have fits: "length (board opening_state) \<le> length (cells example_page)"
    and fits0: "0 + length (board opening_state) \<le> length (cells example_page)"
    and idx: "0 < length (cells example_page)"
    and idxb: "0 < length (board opening_state)"
    by (simp_all add: opening_state_def example_page_def)
  have b0: "board opening_state ! 0 = ''X''" by (simp add: opening_state_def)
  have cs: "cells occupied_page = snd (render_from 0 (board opening_state) (cells example_page))"
    unfolding occupied_page_def by (rule updateFromState_cells)
  have "cells occupied_page ! 0 = renderMark (cells example_page ! 0) (board opening_state ! 0)"
    unfolding cs using render_from_nth [OF fits0 idx] by (simp add: opening_state_def)
  then have markup: "innerHTML (cells occupied_page ! 0) = SVG_X"
    by (simp add: b0 renderMark_def)
  have gid: "gameId occupied_page = Some ''g1''"
    unfolding occupied_page_def by (simp add: updateFromState_session example_page_def)
  have status: "statusText occupied_page = ''Player O's turn''"
    unfolding occupied_page_def updateFromState_status [OF fits]
    by (simp add: status_of_def opening_state_def truthy_def)
  have "click 0 (Response False rejection) half_rnd Failure half_rnd occupied_page =
        postMove 0 (Response False rejection) half_rnd Failure half_rnd occupied_page"
    unfolding occupied_page_def using fits idxb by (rule click_after_updateFromState)
  also have "\<dots> = setStatus ''Cell occupied''
      (emit (Fetch ''/api/move/g1'' (IndexBody 0)) (emit (PostMove 0) occupied_page))"
    using gid by (simp add: postMove_def Let_def emit_def rejection_def truthy_def)
  finally have clicked: "click 0 (Response False rejection) half_rnd Failure half_rnd occupied_page =
      setStatus ''Cell occupied''
        (emit (Fetch ''/api/move/g1'' (IndexBody 0)) (emit (PostMove 0) occupied_page))" .
  have tr: "trace (click 0 (Response False rejection) half_rnd Failure half_rnd occupied_page) =
       trace occupied_page @ [PostMove 0, Fetch ''/api/move/g1'' (IndexBody 0)]"
    unfolding clicked by (simp add: setStatus_def emit_def)
  have st: "statusText (click 0 (Response False rejection) half_rnd Failure half_rnd occupied_page) =
       ''Cell occupied''"
    unfolding clicked by (simp add: setStatus_def)
  from b0 markup tr status st show ?thesis by blast
qed

section \<open>Properties of the win line\<close>

lemma celebrate_trace:
  "trace (celebrate rnd st s) =
     trace s @ (if soundOn s \<and> hasAudio s then [Tone 320 0.16 0.12] else []) @ [LaunchConfetti]"
  by (simp add: celebrate_def Let_def beep_def launchConfetti_def emit_def)

lemma celebrate_timers:
  "timers (celebrate rnd st s) =
     timers s @ (if soundOn s \<and> hasAudio s then [(180, StopOscillator)] else [])"
  by (simp add: celebrate_def Let_def beep_def launchConfetti_def emit_def)

lemma cell_center_cong:
  assumes "map cellRect (cells s') = map cellRect (cells s)" and "boardRect s' = boardRect s"
    and "i < length (cells s)"
  shows "cell_center s' i = cell_center s i"
proof -
  from assms(1) have "length (cells s') = length (cells s)"
    by (metis length_map)
  with assms(3) have "cellRect (cells s' ! i) = map cellRect (cells s') ! i"
    and "cellRect (cells s ! i) = map cellRect (cells s) ! i"
    by simp_all
  with assms(1,2) show ?thesis by (simp add: cell_center_def)
qed

lemma updateFromState_win:
  assumes "truthy (winner st)" and "winner st \<noteq> Some ''Tie''"
    and "findWinningTriple (board st) = Some (a, m, c)"
    and "length (board st) \<le> length (cells s)"
  shows "\<exists>s2. updateFromState rnd st s = (Normal, celebrate rnd st s2)
       \<and> trace s2 = trace s @ [UpdateFromState st, FindWinningTriple (board st), AnimateWinLine a c]
       \<and> soundOn s2 = soundOn s \<and> hasAudio s2 = hasAudio s
       \<and> winLine s2 = (winLine s)\<lparr>x1 := fst (cell_center s a), y1 := snd (cell_center s a),
                     x2 := fst (cell_center s a), y2 := snd (cell_center s a),
                     opacity := 1, transition := ''opacity .25s linear''\<rparr>
       \<and> timers s2 = timers s @
          [(20, MoveEndpoint (fst (cell_center s c)) (snd (cell_center s c))), (1800, FadeLine)]"
proof (cases rule: updateFromState_cases [of st s rnd])
  case (render_throws cs)
  with updateFromState_fits [OF assms(4), of rnd] show ?thesis by simp
next
  case (quiet cs)
  with assms(1,2) show ?thesis by simp
next
  case (line_throws cs s2)
  with updateFromState_fits [OF assms(4), of rnd] show ?thesis by simp
next
  case (win cs s2)
  let ?s1 = "setStatus (status_of st) ((emit (UpdateFromState st) s)\<lparr>cells := cs\<rparr>)"
  from assms(4) have fits: "0 + length (board st) \<le> length (cells s)" by simp
  from render_from_fits [OF fits] win(1)
  have len: "length cs = length (cells s)" and rects: "map cellRect cs = map cellRect (cells s)"
    by simp_all
  from assms(3) have "a < length (board st) \<and> m < length (board st) \<and> c < length (board st)"
    by (rule findWinningTriple_in_board)
  with assms(4) have a: "a < length (cells s)" and c: "c < length (cells s)" by simp_all
  have cells1: "cells ?s1 = cs" and board1: "boardRect ?s1 = boardRect s"
    by (simp_all add: setStatus_def emit_def)
  have rects1: "map cellRect (cells ?s1) = map cellRect (cells s)"
    unfolding cells1 by (rule rects)
  have ca: "cell_center ?s1 a = cell_center s a"
    using rects1 board1 a by (rule cell_center_cong)
  have cc: "cell_center ?s1 c = cell_center s c"
    using rects1 board1 c by (rule cell_center_cong)
  from a c len have "a < length (cells ?s1)" "c < length (cells ?s1)"
    by (simp_all add: cells1)
  with assms(3) have "draw_win_line st ?s1 =
     (Normal,
      ?s1\<lparr>trace := trace ?s1 @ [FindWinningTriple (board st), AnimateWinLine a c],
        winLine := (winLine ?s1)\<lparr>x1 := fst (cell_center ?s1 a), y1 := snd (cell_center ?s1 a),
                     x2 := fst (cell_center ?s1 a), y2 := snd (cell_center ?s1 a),
                     opacity := 1, transition := ''opacity .25s linear''\<rparr>,
        timers := timers ?s1 @
          [(20, MoveEndpoint (fst (cell_center ?s1 c)) (snd (cell_center ?s1 c))),
           (1800, FadeLine)]\<rparr>)"
    by (rule draw_win_line_Some)
  with win(4) have s2: "s2 =
      ?s1\<lparr>trace := trace ?s1 @ [FindWinningTriple (board st), AnimateWinLine a c],
        winLine := (winLine ?s1)\<lparr>x1 := fst (cell_center s a), y1 := snd (cell_center s a),
                     x2 := fst (cell_center s a), y2 := snd (cell_center s a),
                     opacity := 1, transition := ''opacity .25s linear''\<rparr>,
        timers := timers ?s1 @
          [(20, MoveEndpoint (fst (cell_center s c)) (snd (cell_center s c))),
           (1800, FadeLine)]\<rparr>"
    unfolding ca cc by simp
  show ?thesis
    by (rule exI [of _ s2]) (simp add: win(5), simp add: s2 setStatus_def emit_def)
qed

text \<open>
  Claim C8. For a winner other than \<open>Tie\<close> and a detected triple \<open>(a, m, c)\<close>, the
  animator is called with \<open>a\<close> and \<open>c\<close>; the line starts collapsed at the center of cell
  \<open>a\<close>, and the timer set for 20 ms moves its end to the center of cell \<open>c\<close>. Both
  centers are relative to the bounding box of the board.
\<close>

theorem win_line_endpoints:
  fixes rnd st s a m c
  defines "s' \<equiv> snd (updateFromState rnd st s)"
  defines "move \<equiv> MoveEndpoint (fst (cell_center s c)) (snd (cell_center s c))"
  assumes "truthy (winner st)" and "winner st \<noteq> Some ''Tie''"
    and "findWinningTriple (board st) = Some (a, m, c)"
    and "length (board st) \<le> length (cells s)"
  shows "trace s' =
           trace s @ [UpdateFromState st, FindWinningTriple (board st), AnimateWinLine a c] @
           (if soundOn s \<and> hasAudio s then [Tone 320 0.16 0.12] else []) @ [LaunchConfetti]
       \<and> (x1 (winLine s'), y1 (winLine s')) = cell_center s a
       \<and> (x2 (winLine s'), y2 (winLine s')) = cell_center s a
       \<and> (20, move) \<in> set (timers s')
       \<and> (x1 (winLine (fire move s')), y1 (winLine (fire move s'))) = cell_center s a
       \<and> (x2 (winLine (fire move s')), y2 (winLine (fire move s'))) = cell_center s c"
proof -
  from updateFromState_win [OF assms(3-6), of rnd]
  obtain s2 where u: "updateFromState rnd st s = (Normal, celebrate rnd st s2)"
    and tr: "trace s2 =
        trace s @ [UpdateFromState st, FindWinningTriple (board st), AnimateWinLine a c]"
    and snd: "soundOn s2 = soundOn s" "hasAudio s2 = hasAudio s"
    and wl: "winLine s2 = (winLine s)\<lparr>x1 := fst (cell_center s a), y1 := snd (cell_center s a),
                     x2 := fst (cell_center s a), y2 := snd (cell_center s a),
                     opacity := 1, transition := ''opacity .25s linear''\<rparr>"
    and tm: "timers s2 = timers s @ [(20, move), (1800, FadeLine)]"
    unfolding move_def by blast
  from u have s': "s' = celebrate rnd st s2" by (simp add: s'_def)
  have t: "trace s' =
           trace s @ [UpdateFromState st, FindWinningTriple (board st), AnimateWinLine a c] @
           (if soundOn s \<and> hasAudio s then [Tone 320 0.16 0.12] else []) @ [LaunchConfetti]"
    unfolding s' celebrate_trace tr snd by simp
  have w: "winLine s' = winLine s2"
    unfolding s' by (simp add: celebrate_frame)
  have "timers s' = timers s @ [(20, move), (1800, FadeLine)] @
      (if soundOn s \<and> hasAudio s then [(180, StopOscillator)] else [])"
    unfolding s' celebrate_timers tm snd by simp
  then have mem: "(20, move) \<in> set (timers s')" by simp
  have fired: "winLine (fire move s') =
      (winLine s')\<lparr>x2 := fst (cell_center s c), y2 := snd (cell_center s c), opacity := 1,
        strokeDashoffset := 0,
        transition := ''stroke-dashoffset 700ms cubic-bezier(.2,.9,.2,1), x2 700ms''\<rparr>"
    unfolding move_def by simp
  show ?thesis
    unfolding fired w wl using t mem by simp
qed

theorem win_line_endpoints_witness:
  "truthy (winner x_row_state) \<and> winner x_row_state \<noteq> Some ''Tie''
   \<and> findWinningTriple (board x_row_state) = Some (0, 1, 2)
   \<and> length (board x_row_state) \<le> length (cells example_page)
   \<and> cell_center example_page 0 = (50, 50)
   \<and> cell_center example_page 2 = (250, 50)
   \<and> x1 (winLine (snd (updateFromState half_rnd x_row_state example_page))) = 50
   \<and> y1 (winLine (snd (updateFromState half_rnd x_row_state example_page))) = 50
   \<and> x2 (winLine (fire (MoveEndpoint 250 50)
                     (snd (updateFromState half_rnd x_row_state example_page)))) = 250
   \<and> y2 (winLine (fire (MoveEndpoint 250 50)
                     (snd (updateFromState half_rnd x_row_state example_page)))) = 50
   \<and> (20, MoveEndpoint 250 50) \<in>
       set (timers (snd (updateFromState half_rnd x_row_state example_page)))"
proof -
  have w: "truthy (winner x_row_state)" "winner x_row_state \<noteq> Some ''Tie''"
    by (simp_all add: x_row_state_def truthy_def)
  have f: "findWinningTriple (board x_row_state) = Some (0, 1, 2)"
    by (simp add: x_row_state_def findWinningTriple_def lines_def truthy_def js_index_def)
  have fits: "length (board x_row_state) \<le> length (cells example_page)"
    by (simp add: x_row_state_def example_page_def)
  have c0: "cell_center example_page 0 = (50, 50)"
    and c2: "cell_center example_page 2 = (250, 50)"
    by (simp_all add: cell_center_def relative_to_def center_def example_page_def grid_cell_def)
  note inst = win_line_endpoints [OF w f fits, of half_rnd, unfolded c0 c2 fst_conv snd_conv]
  from inst have "x1 (winLine (snd (updateFromState half_rnd x_row_state example_page))) = 50"
    and "y1 (winLine (snd (updateFromState half_rnd x_row_state example_page))) = 50"
    and "x2 (winLine (fire (MoveEndpoint 250 50)
                     (snd (updateFromState half_rnd x_row_state example_page)))) = 250"
    and "y2 (winLine (fire (MoveEndpoint 250 50)
                     (snd (updateFromState half_rnd x_row_state example_page)))) = 50"
    and "(20, MoveEndpoint 250 50) \<in>
       set (timers (snd (updateFromState half_rnd x_row_state example_page)))"
    by simp_all
  with w f fits c0 c2 show ?thesis by blast
qed

section \<open>Properties of the confetti\<close>

lemma seed_map: "seed rnd W H count i ps = ps @ map (new_piece rnd W H) [i..<count]"
proof (induction rnd W H count i ps rule: seed.induct)
  case (1 rnd W H count i ps)
  show ?case
  proof (cases "i < count")
    case True
    with 1 have "seed rnd W H count (i + 1) (ps @ [new_piece rnd W H i]) =
        (ps @ [new_piece rnd W H i]) @ map (new_piece rnd W H) [i + 1..<count]"
      by simp
    with True show ?thesis
      by (simp add: seed.simps [of rnd W H count i ps] upt_conv_Cons)
  next
    case False
    then show ?thesis by (simp add: seed.simps [of rnd W H count i ps])
  qed
qed

lemma new_piece_above: "0 \<le> rnd (8 * i + 1) \<Longrightarrow> py (new_piece rnd W H i) < 0"
proof -
  assume "0 \<le> rnd (8 * i + 1)"
  then have "0 \<le> rnd (8 * i + 1) * real H * 0.2" by simp
  then show ?thesis by (simp add: new_piece_def)
qed

lemma new_runs_eq:
  "new_runs rnd s =
     (if hasCtx s
      then [\<lparr>runW = canvasWidth s, runH = canvasHeight s,
             pieces = seed rnd (canvasWidth s) (canvasHeight s)
                        (min 120 (canvasWidth s div 8)) 0 [],
             tick = 0, pending = True, ops = []\<rparr>]
      else [])"
  by (simp add: new_runs_def launchConfetti_def emit_def Let_def)

lemma particles_created_eq:
  "particles_created rnd s =
     (if hasCtx s
      then map (new_piece rnd (canvasWidth s) (canvasHeight s))
             [0..<min 120 (canvasWidth s div 8)]
      else [])"
  by (simp add: particles_created_def new_runs_eq seed_map)

text \<open>
  Claim C3 as stated fails where the canvas gives no 2D context: \<open>launchConfetti\<close> returns
  at its first line and no particle is created, whatever the width of the canvas.
\<close>

theorem launchConfetti_no_context_counterexample:
  "length (particles_created half_rnd no_context_page) = 0
   \<and> min 120 (canvasWidth no_context_page div 8) = 100
   \<and> length (particles_created half_rnd no_context_page) \<noteq>
       min 120 (canvasWidth no_context_page div 8)"
  by (simp add: particles_created_eq no_context_page_def example_page_def)

text \<open>
  Claim C3, amended. When the canvas gives a 2D context, a call of \<open>launchConfetti\<close>
  creates \<open>min 120 (W div 8)\<close> particles for a canvas of width \<open>W\<close>; without a context it
  creates none. Every particle created starts with a negative \<open>y\<close>, for random numbers
  in the range of \<open>Math.random\<close>.
\<close>

theorem launchConfetti_particles:
  assumes "\<forall>k. 0 \<le> rnd k \<and> rnd k < 1"
  shows "(hasCtx s \<longrightarrow> length (particles_created rnd s) = min 120 (canvasWidth s div 8))
       \<and> (\<not> hasCtx s \<longrightarrow> particles_created rnd s = [])
       \<and> (\<forall>p \<in> set (particles_created rnd s). py p < 0)"
proof (intro conjI impI ballI)
  show "length (particles_created rnd s) = min 120 (canvasWidth s div 8)" if "hasCtx s"
    using that by (simp add: particles_created_eq)
  show "particles_created rnd s = []" if "\<not> hasCtx s"
    using that by (simp add: particles_created_eq)
  fix p
  assume "p \<in> set (particles_created rnd s)"
  then obtain i where "p = new_piece rnd (canvasWidth s) (canvasHeight s) i"
    by (auto simp: particles_created_eq split: if_splits)
  moreover from assms have "0 \<le> rnd (8 * i + 1)" by blast
  ultimately show "py p < 0" by (simp add: new_piece_above)
qed

theorem launchConfetti_particles_witness:
  "(\<forall>k. 0 \<le> half_rnd k \<and> half_rnd k < 1)
   \<and> hasCtx example_page
   \<and> length (particles_created half_rnd example_page) = 100
   \<and> py (hd (particles_created half_rnd example_page)) < 0
   \<and> \<not> hasCtx no_context_page
   \<and> particles_created half_rnd no_context_page = []"
proof -
  have r: "\<forall>k. 0 \<le> half_rnd k \<and> half_rnd k < 1" by (simp add: half_rnd_def)
  have c: "hasCtx example_page" and n: "\<not> hasCtx no_context_page"
    and w: "min 120 (canvasWidth example_page div 8) = 100"
    by (simp_all add: example_page_def no_context_page_def)
  note inst = launchConfetti_particles [OF r, of example_page]
  from inst c w have len: "length (particles_created half_rnd example_page) = 100" by simp
  then have "particles_created half_rnd example_page \<noteq> []" by auto
  then have "hd (particles_created half_rnd example_page) \<in>
      set (particles_created half_rnd example_page)" by simp
  with inst have above: "py (hd (particles_created half_rnd example_page)) < 0" by blast
  from launchConfetti_particles [OF r, of no_context_page] n
  have none: "particles_created half_rnd no_context_page = []" by blast
  from r c len above n none show ?thesis by blast
qed

lemma frame_fields:
  "tick (frame run) = tick run + 1 \<and> runW (frame run) = runW run \<and>
   runH (frame run) = runH run \<and> pieces (frame run) = map move_piece (pieces run)"
  by (simp add: frame_def Let_def)

lemma frame_pending:
  "pending (frame run) = (if tick run + 1 < 220 then True else pending run)"
  by (simp add: frame_def Let_def)

lemma frame_last_clear:
  "\<not> tick run + 1 < 220 \<Longrightarrow>
   last (ops (frame run)) = ClearRect 0 0 (real (runW run)) (real (runH run))"
  by (simp add: frame_def Let_def)

lemma frame_ops_grow: "set (ops run) \<subseteq> set (ops (frame run))"
  by (auto simp: frame_def Let_def)

lemma frame_ops:
  "ops (frame run) =
     ops run @ [ClearRect 0 0 (real (runW run)) (real (runH run))] @
     concat (map draw_piece (map move_piece (pieces run))) @
     (if tick run + 1 < 220 then [] else [ClearRect 0 0 (real (runW run)) (real (runH run))])"
  by (simp add: frame_def Let_def)

lemma frame_draws:
  assumes "p \<in> set (pieces (frame run))"
  shows "set (draw_piece p) \<subseteq> set (ops (frame run))"
proof -
  from assms have "p \<in> set (map move_piece (pieces run))" by (simp add: frame_fields)
  then have "set (draw_piece p) \<subseteq> set (concat (map draw_piece (map move_piece (pieces run))))"
    by auto
  then show ?thesis unfolding frame_ops by auto
qed

lemma draw_piece_no_clear: "filter is_clear (draw_piece p) = []"
  by (simp add: draw_piece_def)

lemma frame_clears:
  "set (filter is_clear (ops (frame run))) =
     insert (ClearRect 0 0 (real (runW run)) (real (runH run))) (set (filter is_clear (ops run)))"
proof -
  have "filter is_clear (concat (map draw_piece ps)) = []" for ps
    by (induction ps) (simp_all add: draw_piece_no_clear)
  then have nc: "filter is_clear (concat (map draw_piece (map move_piece (pieces run)))) = []" .
  show ?thesis
    unfolding frame_ops filter_append nc by auto
qed

lemma on_frame_idle: "\<not> pending run \<Longrightarrow> on_frame run = run"
  by (simp add: on_frame_def)

lemma on_frame_fields:
  "runW (on_frame run) = runW run \<and> runH (on_frame run) = runH run"
  by (simp add: on_frame_def frame_fields)

lemma on_frame_ops_grow: "set (ops run) \<subseteq> set (ops (on_frame run))"
  using frame_ops_grow [of "run\<lparr>pending := False\<rparr>"] by (simp add: on_frame_def)

lemma frames_ops_grow: "set (ops run) \<subseteq> set (ops ((on_frame ^^ k) run))"
proof (induction k)
  case 0
  show ?case by simp
next
  case (Suc k)
  with on_frame_ops_grow [of "(on_frame ^^ k) run"] show ?case by auto
qed

lemma frames_idle: "\<not> pending run \<Longrightarrow> (on_frame ^^ k) run = run"
  by (induction k) (simp_all add: on_frame_idle)

text \<open>
  The tick budget: a run launched at \<open>t = 0\<close> has made \<open>k\<close> calls of \<open>frame\<close> after \<open>k\<close>
  animation frames, up to 220, and still requests one exactly while \<open>t\<close> is below 220.
\<close>

lemma frames_within:
  "pending run \<Longrightarrow> tick run < 220 \<Longrightarrow> tick run + k \<le> 220 \<Longrightarrow>
   tick ((on_frame ^^ k) run) = tick run + k \<and>
   pending ((on_frame ^^ k) run) = (tick run + k < 220) \<and>
   runW ((on_frame ^^ k) run) = runW run \<and> runH ((on_frame ^^ k) run) = runH run \<and>
   pieces ((on_frame ^^ k) run) = map (move_piece ^^ k) (pieces run)"
proof (induction k)
  case 0
  then show ?case by simp
next
  case (Suc k)
  let ?r = "(on_frame ^^ k) run"
  from Suc.prems have "tick run + k \<le> 220" by simp
  with Suc.IH Suc.prems(1,2)
  have ih: "tick ?r = tick run + k" "pending ?r = (tick run + k < 220)"
    "runW ?r = runW run" "runH ?r = runH run" "pieces ?r = map (move_piece ^^ k) (pieces run)"
    by simp_all
  from Suc.prems(3) ih(2) have p: "pending ?r" by simp
  then have step: "(on_frame ^^ Suc k) run = frame (?r\<lparr>pending := False\<rparr>)"
    by (simp add: on_frame_def)
  show ?case
    unfolding step using ih by (simp add: frame_fields frame_pending)
qed

lemma frames_budget:
  assumes "pending run" and "tick run = 0"
  shows "tick ((on_frame ^^ k) run) = min k 220 \<and> pending ((on_frame ^^ k) run) = (k < 220)"
proof (cases "k \<le> 220")
  case True
  with frames_within [of run k] assms show ?thesis by simp
next
  case False
  then obtain j where k: "k = j + 220" by (metis add.commute le_Suc_ex nat_le_linear)
  from frames_within [of run 220] assms
  have fin: "tick ((on_frame ^^ 220) run) = 220" "\<not> pending ((on_frame ^^ 220) run)"
    by simp_all
  have "(on_frame ^^ k) run = (on_frame ^^ j) ((on_frame ^^ 220) run)"
    unfolding k by (simp add: funpow_add)
  also have "\<dots> = (on_frame ^^ 220) run" using fin(2) by (rule frames_idle)
  finally show ?thesis using fin False by simp
qed

lemma frames_last_clear:
  assumes "pending run" and "tick run = 0"
  shows "last (ops ((on_frame ^^ 220) run)) = ClearRect 0 0 (real (runW run)) (real (runH run))"
proof -
  let ?r = "(on_frame ^^ 219) run"
  from frames_within [of run 219] assms
  have r: "tick ?r = 219" "pending ?r" "runW ?r = runW run" "runH ?r = runH run" by simp_all
  have "(on_frame ^^ 220) run = on_frame ?r"
    using funpow.simps(2) [of 219 on_frame] by simp
  with r(2) have step: "(on_frame ^^ 220) run = frame (?r\<lparr>pending := False\<rparr>)"
    by (simp add: on_frame_def)
  show ?thesis
    unfolding step using frame_last_clear [of "?r\<lparr>pending := False\<rparr>"] r by simp
qed

lemma frames_clears:
  "set (filter is_clear (ops ((on_frame ^^ k) run))) \<subseteq>
     insert (ClearRect 0 0 (real (runW run)) (real (runH run))) (set (filter is_clear (ops run)))"
proof (induction k)
  case 0
  show ?case by auto
next
  case (Suc k)
  let ?r = "(on_frame ^^ k) run"
  have wh: "runW ?r = runW run" "runH ?r = runH run"
    by (induction k) (simp_all add: on_frame_fields)
  show ?case
  proof (cases "pending ?r")
    case True
    then have "(on_frame ^^ Suc k) run = frame (?r\<lparr>pending := False\<rparr>)"
      by (simp add: on_frame_def)
    with Suc frame_clears [of "?r\<lparr>pending := False\<rparr>"] wh show ?thesis by auto
  next
    case False
    then have "(on_frame ^^ Suc k) run = ?r" by (simp add: on_frame_idle)
    with Suc show ?thesis by simp
  qed
qed

lemma move_piece_pow:
  "(move_piece ^^ k) p =
     p\<lparr>px := px p + real k * pvx p, py := py p + real k * pvy p,
       prot := prot p + real k * pvrot p\<rparr>"
proof (induction k)
  case 0
  show ?case by simp
next
  case (Suc k)
  then show ?case by (simp add: move_piece_def algebra_simps)
qed

lemma frames_draw:
  assumes "pending run" and "tick run = 0" and "0 < j" and "j \<le> k" and "k \<le> 220"
    and "p \<in> set (pieces run)"
  shows "set (draw_piece ((move_piece ^^ j) p)) \<subseteq> set (ops ((on_frame ^^ k) run))"
proof -
  from assms(3) obtain i where j: "j = Suc i" by (cases j) simp_all
  let ?r = "(on_frame ^^ i) run"
  from assms(4,5) j have "i < 220" by simp
  with frames_within [of run i] assms(1,2)
  have r: "pending ?r" "pieces ?r = map (move_piece ^^ i) (pieces run)" by simp_all
  from r(1) have step: "(on_frame ^^ j) run = frame (?r\<lparr>pending := False\<rparr>)"
    unfolding j by (simp add: on_frame_def)
  have "(move_piece ^^ j) p \<in> set (pieces (frame (?r\<lparr>pending := False\<rparr>)))"
    unfolding j using r(2) assms(6) by (simp add: frame_fields)
  then have "set (draw_piece ((move_piece ^^ j) p)) \<subseteq> set (ops ((on_frame ^^ j) run))"
    unfolding step by (rule frame_draws)
  moreover from assms(4) obtain d where "k = d + j" by (metis add.commute le_Suc_ex)
  then have "(on_frame ^^ k) run = (on_frame ^^ d) ((on_frame ^^ j) run)"
    by (simp add: funpow_add)
  then have "set (ops ((on_frame ^^ j) run)) \<subseteq> set (ops ((on_frame ^^ k) run))"
    by (simp add: frames_ops_grow)
  ultimately show ?thesis by blast
qed

section \<open>Properties of the browser events\<close>

lemma browser_append: "browser (es @ es') s = browser es' (browser es s)"
  by (simp add: browser_def)

lemma browser_frames:
  "browser (replicate k AnimationFrame) s = s\<lparr>confetti := map (on_frame ^^ k) (confetti s)\<rparr>"
proof (induction k arbitrary: s)
  case 0
  show ?case by (simp add: browser_def)
next
  case (Suc k)
  have "browser (replicate (Suc k) AnimationFrame) s =
      browser (replicate k AnimationFrame) (browser_step s AnimationFrame)"
    by (simp add: browser_def)
  also have "\<dots> = s\<lparr>confetti := map (on_frame ^^ k) (map on_frame (confetti s))\<rparr>"
    unfolding Suc.IH by simp
  also have "map (on_frame ^^ k) (map on_frame (confetti s)) =
      map (on_frame ^^ Suc k) (confetti s)"
    by (simp add: funpow_swap1)
  finally show ?case .
qed

lemma browser_resize: "browser [WindowResize w h] s = resizeCanvas w h s"
  by (simp add: browser_def)

text \<open>
  Claim C4, at a concrete input. Confetti is launched on a canvas of 8 by 600 with every
  random number 0.5: one square of side 10 starts at \<open>(4, -80)\<close> and falls 5 a frame.
  After 100 animation frames the window grows to 8 by 900, and 120 more frames follow.
  The run makes its 220 calls of \<open>frame\<close> and requests no more, but every clearing it
  does, the last one too, is of the 8 by 600 it read at launch, while the canvas is now
  8 by 900: the square drawn at \<open>(4, 605)\<close> in frame 137, below the cleared part, stays.
  The claim says that the run leaves the canvas cleared by a final clearing of the whole
  canvas.
\<close>

theorem confetti_resize_leaves_squares:
  "canvasWidth resized_page = 8 \<and> canvasHeight resized_page = 900
   \<and> length (confetti resized_page) = 1
   \<and> tick (hd (confetti resized_page)) = 220
   \<and> \<not> pending (hd (confetti resized_page))
   \<and> on_frame (hd (confetti resized_page)) = hd (confetti resized_page)
   \<and> last (ops (hd (confetti resized_page))) = ClearRect 0 0 8 600
   \<and> set (filter is_clear (ops (hd (confetti resized_page)))) = {ClearRect 0 0 8 600}
   \<and> Translate 4 605 \<in> set (ops (hd (confetti resized_page)))
   \<and> FillRect (- 5) (- 5) 10 10 \<in> set (ops (hd (confetti resized_page)))"
proof -
  define p0 where "p0 = new_piece half_rnd 8 600 0"
  define r0 where
    "r0 = \<lparr>runW = 8, runH = 600, pieces = [p0], tick = 0, pending = True, ops = []\<rparr>"
  let ?s0 = "launchConfetti half_rnd narrow_page"
  let ?r = "(on_frame ^^ 220) r0"
  have s0: "confetti ?s0 = [r0]" "canvasWidth ?s0 = 8" "canvasHeight ?s0 = 600"
    by (simp_all add: launchConfetti_def emit_def Let_def narrow_page_def example_page_def
        seed_map r0_def p0_def)
  have "resized_page =
      browser (replicate 120 AnimationFrame)
        (browser [WindowResize 8 900] (browser (replicate 100 AnimationFrame) ?s0))"
    by (simp only: resized_page_def resize_schedule_def browser_append)
  then have page: "resized_page =
      (resizeCanvas 8 900 (?s0\<lparr>confetti := map (on_frame ^^ 100) (confetti ?s0)\<rparr>))
        \<lparr>confetti := map (on_frame ^^ 120)
           (confetti (resizeCanvas 8 900 (?s0\<lparr>confetti := map (on_frame ^^ 100) (confetti ?s0)\<rparr>)))\<rparr>"
    by (simp only: browser_frames browser_resize)
  have "(on_frame ^^ 120) ((on_frame ^^ 100) r0) = (on_frame ^^ (120 + 100)) r0"
    by (simp only: funpow_add o_apply)
  then have runs: "confetti resized_page = [?r]"
    unfolding page by (simp add: resizeCanvas_def s0)
  have size: "canvasWidth resized_page = 8" "canvasHeight resized_page = 900"
    unfolding page by (simp_all add: resizeCanvas_def)
  have r0: "pending r0" "tick r0 = 0" "tick r0 < 220" "runW r0 = 8" "runH r0 = 600"
    "ops r0 = []" "p0 \<in> set (pieces r0)"
    by (simp_all add: r0_def)
  from frames_within [OF r0(1,3), of 220] r0(2)
  have fin: "tick ?r = 220" "\<not> pending ?r" by simp_all
  from fin(2) have idle: "on_frame ?r = ?r" by (rule on_frame_idle)
  have lst: "last (ops ?r) = ClearRect 0 0 8 600"
    using frames_last_clear [OF r0(1,2)] r0(4,5) by simp
  have moved: "(move_piece ^^ 137) p0 = p0\<lparr>px := 4, py := 605, prot := 180\<rparr>"
    unfolding move_piece_pow by (simp add: p0_def new_piece_def half_rnd_def)
  have "psize p0 = 10" by (simp add: p0_def new_piece_def half_rnd_def)
  then have drawn: "Translate 4 605 \<in> set (draw_piece ((move_piece ^^ 137) p0))"
    "FillRect (- 5) (- 5) 10 10 \<in> set (draw_piece ((move_piece ^^ 137) p0))"
    unfolding moved by (simp_all add: draw_piece_def)
  have "set (draw_piece ((move_piece ^^ 137) p0)) \<subseteq> set (ops ?r)"
    using r0(1,2) _ _ _ r0(7) by (rule frames_draw) simp_all
  with drawn have tr: "Translate 4 605 \<in> set (ops ?r)"
    and fr: "FillRect (- 5) (- 5) 10 10 \<in> set (ops ?r)" by blast+
  from tr have "ops ?r \<noteq> []" by auto
  then have "last (ops ?r) \<in> set (ops ?r)" by simp
  with lst have "ClearRect 0 0 8 600 \<in> set (filter is_clear (ops ?r))" by simp
  moreover have "set (filter is_clear (ops ?r)) \<subseteq> {ClearRect 0 0 8 600}"
    using frames_clears [of 220 r0] r0(4,5,6) by simp
  ultimately have clears: "set (filter is_clear (ops ?r)) = {ClearRect 0 0 8 600}" by blast
  show ?thesis
    unfolding runs using size fin idle lst clears tr fr by simp
qed

section \<open>Properties of the keydown listener\<close>

lemma focusCell_in_page:
  "t < length (cells s) \<Longrightarrow>
   focusCell t s = (Normal, s\<lparr>trace := trace s @ [FocusCell t], focused := Some t\<rparr>)"
  by (simp add: focusCell_def js_index_def emit_def Let_def)

lemma keydown_ArrowRight:
  "idx < length (cells s) \<Longrightarrow>
   keydown idx ''ArrowRight'' res rnd aiRes aiRnd s =
     focusCell ((idx div 3 * 3) + ((idx mod 3 + 1) mod 3)) s"
  by (simp add: keydown_def js_index_def Let_def)

lemma keydown_ArrowLeft:
  "idx < length (cells s) \<Longrightarrow>
   keydown idx ''ArrowLeft'' res rnd aiRes aiRnd s =
     focusCell ((idx div 3 * 3) + ((idx mod 3 + 2) mod 3)) s"
  by (simp add: keydown_def js_index_def Let_def)

lemma keydown_ArrowDown:
  "idx < length (cells s) \<Longrightarrow>
   keydown idx ''ArrowDown'' res rnd aiRes aiRnd s =
     focusCell (((idx div 3 + 1) mod 3) * 3 + idx mod 3) s"
  by (simp add: keydown_def js_index_def Let_def)

lemma keydown_ArrowUp:
  "idx < length (cells s) \<Longrightarrow>
   keydown idx ''ArrowUp'' res rnd aiRes aiRnd s =
     focusCell (((idx div 3 + 2) mod 3) * 3 + idx mod 3) s"
  by (simp add: keydown_def js_index_def Let_def)

text \<open>
  Claim C6. With focus on cell \<open>idx\<close> of the nine, in row \<open>idx div 3\<close> and column
  \<open>idx mod 3\<close>, an arrow key moves the focus within the grid and wraps around on both
  axes: right and left stay in the row and go to column \<open>(col + 1) mod 3\<close> and
  \<open>(col + 2) mod 3\<close>, down and up stay in the column and go to row \<open>(row + 1) mod 3\<close> and
  \<open>(row + 2) mod 3\<close>. In particular ArrowRight from cell 2 focuses cell 0.
\<close>

theorem arrow_keys_wrap_around:
  fixes idx row col :: nat
  defines "row \<equiv> idx div 3" and "col \<equiv> idx mod 3"
  assumes "length (cells s) = 9" and "idx < 9"
  shows "focused (snd (keydown idx ''ArrowRight'' res rnd aiRes aiRnd s)) =
           Some (row * 3 + (col + 1) mod 3)
       \<and> focused (snd (keydown idx ''ArrowLeft'' res rnd aiRes aiRnd s)) =
           Some (row * 3 + (col + 2) mod 3)
       \<and> focused (snd (keydown idx ''ArrowDown'' res rnd aiRes aiRnd s)) =
           Some (((row + 1) mod 3) * 3 + col)
       \<and> focused (snd (keydown idx ''ArrowUp'' res rnd aiRes aiRnd s)) =
           Some (((row + 2) mod 3) * 3 + col)
       \<and> row * 3 + (col + 1) mod 3 < 9 \<and> (row * 3 + (col + 1) mod 3) div 3 = row
       \<and> (row * 3 + (col + 1) mod 3) mod 3 = (col + 1) mod 3
       \<and> row * 3 + (col + 2) mod 3 < 9 \<and> (row * 3 + (col + 2) mod 3) div 3 = row
       \<and> (row * 3 + (col + 2) mod 3) mod 3 = (col + 2) mod 3
       \<and> ((row + 1) mod 3) * 3 + col < 9 \<and> (((row + 1) mod 3) * 3 + col) mod 3 = col
       \<and> (((row + 1) mod 3) * 3 + col) div 3 = (row + 1) mod 3
       \<and> ((row + 2) mod 3) * 3 + col < 9 \<and> (((row + 2) mod 3) * 3 + col) mod 3 = col
       \<and> (((row + 2) mod 3) * 3 + col) div 3 = (row + 2) mod 3
       \<and> (idx = 2 \<longrightarrow>
            focused (snd (keydown idx ''ArrowRight'' res rnd aiRes aiRnd s)) = Some 0)"
proof -
  from assms(4) have rc: "row < 3" "col < 3" by (simp_all add: row_def col_def)
  have m: "(col + 1) mod 3 < 3" "(col + 2) mod 3 < 3" "(row + 1) mod 3 < 3" "(row + 2) mod 3 < 3"
    by simp_all
  have grid: "r * 3 + c < 9 \<and> (r * 3 + c) div 3 = r \<and> (r * 3 + c) mod 3 = c"
    if "r < 3" "c < 3" for r c :: nat
    using that by simp
  note right = grid [OF rc(1) m(1)] and left = grid [OF rc(1) m(2)]
    and down = grid [OF m(3) rc(2)] and up = grid [OF m(4) rc(2)]
  from assms(3,4) have idx: "idx < length (cells s)" by simp
  have kr: "focused (snd (keydown idx ''ArrowRight'' res rnd aiRes aiRnd s)) =
           Some (row * 3 + (col + 1) mod 3)"
    using right assms(3)
    by (simp add: keydown_ArrowRight [OF idx] focusCell_in_page row_def col_def)
  have kl: "focused (snd (keydown idx ''ArrowLeft'' res rnd aiRes aiRnd s)) =
           Some (row * 3 + (col + 2) mod 3)"
    using left assms(3)
    by (simp add: keydown_ArrowLeft [OF idx] focusCell_in_page row_def col_def)
  have kd: "focused (snd (keydown idx ''ArrowDown'' res rnd aiRes aiRnd s)) =
           Some (((row + 1) mod 3) * 3 + col)"
    using down assms(3)
    by (simp add: keydown_ArrowDown [OF idx] focusCell_in_page row_def col_def)
  have ku: "focused (snd (keydown idx ''ArrowUp'' res rnd aiRes aiRnd s)) =
           Some (((row + 2) mod 3) * 3 + col)"
    using up assms(3)
    by (simp add: keydown_ArrowUp [OF idx] focusCell_in_page row_def col_def)
  have two: "focused (snd (keydown idx ''ArrowRight'' res rnd aiRes aiRnd s)) = Some 0"
    if "idx = 2"
    using kr that by (simp add: row_def col_def)
  from kr kl kd ku right left down up two show ?thesis by blast
qed

theorem arrow_keys_wrap_around_witness:
  "length (cells example_page) = 9 \<and> (2::nat) < 9
   \<and> focused (snd (keydown 2 ''ArrowRight'' Failure half_rnd Failure half_rnd example_page)) = Some 0
   \<and> focused (snd (keydown 2 ''ArrowLeft'' Failure half_rnd Failure half_rnd example_page)) = Some 1
   \<and> focused (snd (keydown 2 ''ArrowDown'' Failure half_rnd Failure half_rnd example_page)) = Some 5
   \<and> focused (snd (keydown 2 ''ArrowUp'' Failure half_rnd Failure half_rnd example_page)) = Some 8"
proof -
  have len: "length (cells example_page) = 9" by (simp add: example_page_def)
  have two: "(2::nat) < 9" by simp
  note inst = arrow_keys_wrap_around [OF len two, of Failure half_rnd Failure half_rnd]
  from inst have 
    "focused (snd (keydown 2 ''ArrowRight'' Failure half_rnd Failure half_rnd example_page)) = Some 0"
    "focused (snd (keydown 2 ''ArrowLeft'' Failure half_rnd Failure half_rnd example_page)) = Some 1"
    "focused (snd (keydown 2 ''ArrowDown'' Failure half_rnd Failure half_rnd example_page)) = Some 5"
    "focused (snd (keydown 2 ''ArrowUp'' Failure half_rnd Failure half_rnd example_page)) = Some 8"
    by simp_all
  with len two show ?thesis by blast
qed

end
